theory Spec2Isabelle
  imports Main "HOL-Library.Word"
begin

unbundle bit_operations_syntax

section \<open>Machine integers, byte buffers and formatting\<close>

type_synonym u8 = "8 word"
type_synonym u16 = "16 word"
type_synonym u32 = "32 word"

text \<open>
  A Go panic (an index out of range, a nil interface call) is a value: \<open>Inl\<close> of the
  panic message.  Functions of the source that cannot panic return their value directly.
\<close>

type_synonym panic = string

definition digit_char :: "nat \<Rightarrow> char" where
  "digit_char d = ''0123456789ABCDEF'' ! d"

text \<open>\<open>%v\<close> and \<open>%d\<close> of an unsigned integer: its decimal digits.\<close>

function fmt_nat :: "nat \<Rightarrow> string" where
  "fmt_nat n = (if n < 10 then [digit_char n] else fmt_nat (n div 10) @ [digit_char (n mod 10)])"
  by pat_completeness auto
termination
  by (relation "measure (\<lambda>n. n)") auto

declare fmt_nat.simps [simp del]

text \<open>\<open>%d\<close> of a signed integer.\<close>

definition fmt_int :: "int \<Rightarrow> string" where
  "fmt_int i = (if i < 0 then ''-'' @ fmt_nat (nat (- i)) else fmt_nat (nat i))"

text \<open>\<open>%v\<close> of a boolean.\<close>

definition fmt_bool :: "bool \<Rightarrow> string" where
  "fmt_bool b = (if b then ''true'' else ''false'')"

text \<open>\<open>%08X\<close> of a 32-bit value: eight upper-case hexadecimal digits.\<close>

definition fmt_hex8 :: "u32 \<Rightarrow> string" where
  "fmt_hex8 w = map (\<lambda>i. digit_char (unat (drop_bit (4 * i) w AND 0xF))) [7, 6, 5, 4, 3, 2, 1, 0]"

section \<open>Constants\<close>

text \<open>
  Modelled from the spec: the declarations of the access-mask constants are not among the
  sources.  The spec names the rights (GENERIC_READ, GENERIC_WRITE, GENERIC_EXECUTE,
  GENERIC_ALL, READ_CONTROL, WRITE_DAC, WRITE_OWNER, SYNCHRONIZE, DELETE); their values are the ones
  Windows fixes for a 32-bit access mask.
\<close>

definition AccessMaskGenericRead :: u32 where "AccessMaskGenericRead = 0x80000000"
definition AccessMaskGenericWrite :: u32 where "AccessMaskGenericWrite = 0x40000000"
definition AccessMaskGenericExecute :: u32 where "AccessMaskGenericExecute = 0x20000000"
definition AccessMaskGenericAll :: u32 where "AccessMaskGenericAll = 0x10000000"
definition AccessMaskSynchronize :: u32 where "AccessMaskSynchronize = 0x00100000"
definition AccessMaskWriteOwner :: u32 where "AccessMaskWriteOwner = 0x00080000"
definition AccessMaskWriteDACL :: u32 where "AccessMaskWriteDACL = 0x00040000"
definition AccessMaskReadControl :: u32 where "AccessMaskReadControl = 0x00020000"
definition AccessMaskDelete :: u32 where "AccessMaskDelete = 0x00010000"

section \<open>Security identifiers (sid.go)\<close>

record SID =
  Revision :: u8
  NumAuthorities :: u8
  Authority :: "u8 list"
  SubAuthorities :: "u32 list"

text \<open>The zero value of the Go struct: both slices are nil.\<close>

definition zero_SID :: SID where
  "zero_SID = \<lparr>Revision = 0, NumAuthorities = 0, Authority = [], SubAuthorities = []\<rparr>"

text \<open>
  The loop of \<open>SID.String\<close>: \<open>i\<close> is the loop index, the second number counts the
  iterations left.  \<open>s.SubAuthorities[i]\<close> panics when \<open>i\<close> is out of range.
\<close>

fun String_subs :: "u32 list \<Rightarrow> nat \<Rightarrow> nat \<Rightarrow> string \<Rightarrow> panic + string" where
  "String_subs subs i 0 sb = Inr sb"
| "String_subs subs i (Suc k) sb =
     (if i < length subs
      then String_subs subs (Suc i) k (sb @ ''-'' @ fmt_nat (unat (subs ! i)))
      else Inl ''index out of range'')"

definition SID_String :: "SID \<Rightarrow> panic + string" where
  "SID_String s =
     (if length (Authority s) < 6 then Inr []
      else String_subs (SubAuthorities s) 0 (unat (NumAuthorities s))
             (''S-'' @ fmt_nat (unat (Revision s)) @ ''-'' @ fmt_nat (unat (Authority s ! 5))))"

section \<open>Integrity levels (integrity.go)\<close>

type_synonym IntegrityLevel = u32
type_synonym IntegrityLevelPolicy = u32

definition IntegrityLevelUntrusted :: IntegrityLevel where "IntegrityLevelUntrusted = 0x0000"
definition IntegrityLevelLow :: IntegrityLevel where "IntegrityLevelLow = 0x1000"
definition IntegrityLevelMedium :: IntegrityLevel where "IntegrityLevelMedium = 0x2000"
definition IntegrityLevelMediumPlus :: IntegrityLevel where "IntegrityLevelMediumPlus = 0x2100"
definition IntegrityLevelHigh :: IntegrityLevel where "IntegrityLevelHigh = 0x3000"
definition IntegrityLevelSystem :: IntegrityLevel where "IntegrityLevelSystem = 0x4000"
definition IntegrityLevelProtected :: IntegrityLevel where "IntegrityLevelProtected = 0x5000"
definition IntegrityLevelSecureProcess :: IntegrityLevel where "IntegrityLevelSecureProcess = 0x6000"

definition IntegrityLevelNameMap :: "IntegrityLevel \<rightharpoonup> string" where
  "IntegrityLevelNameMap =
     [IntegrityLevelUntrusted \<mapsto> ''Untrusted'',
      IntegrityLevelLow \<mapsto> ''Low'',
      IntegrityLevelMedium \<mapsto> ''Medium'',
      IntegrityLevelMediumPlus \<mapsto> ''Medium Plus'',
      IntegrityLevelHigh \<mapsto> ''High'',
      IntegrityLevelSystem \<mapsto> ''System'',
      IntegrityLevelProtected \<mapsto> ''Protected Process'',
      IntegrityLevelSecureProcess \<mapsto> ''Secure Process'']"

definition IntegrityLevel_String :: "IntegrityLevel \<Rightarrow> string" where
  "IntegrityLevel_String il =
     (case IntegrityLevelNameMap il of
        Some name \<Rightarrow> name
      | None \<Rightarrow> ''Unknown ('' @ fmt_nat (unat il) @ '')'')"

definition PolicyNoWriteUp :: IntegrityLevelPolicy where "PolicyNoWriteUp = 0x1"
definition PolicyNoReadUp :: IntegrityLevelPolicy where "PolicyNoReadUp = 0x2"
definition PolicyNoExecuteUp :: IntegrityLevelPolicy where "PolicyNoExecuteUp = 0x4"

definition CheckAccess ::
  "IntegrityLevel \<Rightarrow> IntegrityLevel \<Rightarrow> IntegrityLevelPolicy \<Rightarrow> u32 \<Rightarrow> bool" where
  "CheckAccess il objectLevel policy requestedAccess =
     (if il \<ge> objectLevel then True
      else if policy AND PolicyNoWriteUp \<noteq> 0 \<and>
              requestedAccess AND
                (AccessMaskGenericWrite OR AccessMaskWriteDACL OR AccessMaskWriteOwner) \<noteq> 0
      then False
      else if policy AND PolicyNoReadUp \<noteq> 0 \<and>
              requestedAccess AND (AccessMaskGenericRead OR AccessMaskReadControl) \<noteq> 0
      then False
      else if policy AND PolicyNoExecuteUp \<noteq> 0 \<and>
              requestedAccess AND AccessMaskGenericExecute \<noteq> 0
      then False
      else True)"

section \<open>Generic-rights mapping (MapGenericAccess)\<close>

definition genericRights :: "u32 list" where
  "genericRights =
     [AccessMaskGenericRead, AccessMaskGenericWrite, AccessMaskGenericExecute,
      AccessMaskGenericAll]"

text \<open>The loop over \<open>genericRights\<close>; the state is the pair (access, result).\<close>

fun map_generic_loop :: "(u32 \<rightharpoonup> u32) \<Rightarrow> u32 list \<Rightarrow> u32 \<times> u32 \<Rightarrow> u32 \<times> u32" where
  "map_generic_loop m [] (access, result) = (access, result)"
| "map_generic_loop m (genericRight # rest) (access, result) =
     (if access AND genericRight \<noteq> 0
      then (case m genericRight of
              Some specificRights \<Rightarrow>
                map_generic_loop m rest (access AND NOT genericRight, result OR specificRights)
            | None \<Rightarrow> map_generic_loop m rest (access, result))
      else map_generic_loop m rest (access, result))"

text \<open>A nil map is \<open>None\<close>; a map (possibly empty) is \<open>Some m\<close>.\<close>

definition MapGenericAccess :: "u32 \<Rightarrow> (u32 \<rightharpoonup> u32) option \<Rightarrow> u32" where
  "MapGenericAccess access mapping =
     (case mapping of
        None \<Rightarrow> access
      | Some m \<Rightarrow>
          (case map_generic_loop m genericRights (access, 0) of
             (access', result) \<Rightarrow>
               let result' = result OR access'
               in if result' = 0 \<and> access' \<noteq> 0 then access' else result'))"

section \<open>ACEs, ACLs and security descriptors: the data\<close>

record GUID =
  Data1 :: u32
  Data2 :: u16
  Data3 :: u16
  Data4 :: "u8 list"

definition zero_GUID :: GUID where
  "zero_GUID = \<lparr>Data1 = 0, Data2 = 0, Data3 = 0, Data4 = replicate 8 0\<rparr>"

text \<open>
  Modelled from the spec: the declarations of the ACE types and of the ACE type tags are not
  among the sources (their uses in \<open>NewAce\<close>, \<open>AccessCheck\<close> and the tests are).  The
  tags are the ones Windows assigns to the ACE types the spec lists: access-allowed,
  access-denied, system-audit, system-alarm and their object and callback variants.
\<close>

type_synonym AceType = u8

definition AceTypeAccessAllowed :: AceType where "AceTypeAccessAllowed = 0"
definition AceTypeAccessDenied :: AceType where "AceTypeAccessDenied = 1"
definition AceTypeSystemAudit :: AceType where "AceTypeSystemAudit = 2"
definition AceTypeSystemAlarm :: AceType where "AceTypeSystemAlarm = 3"
definition AceTypeAccessAllowedCompound :: AceType where "AceTypeAccessAllowedCompound = 4"
definition AceTypeAccessAllowedObject :: AceType where "AceTypeAccessAllowedObject = 5"
definition AceTypeAccessDeniedObject :: AceType where "AceTypeAccessDeniedObject = 6"
definition AceTypeSystemAuditObject :: AceType where "AceTypeSystemAuditObject = 7"
definition AceTypeSystemAlarmObject :: AceType where "AceTypeSystemAlarmObject = 8"
definition AceTypeAccessAllowedCallback :: AceType where "AceTypeAccessAllowedCallback = 9"
definition AceTypeAccessDeniedCallback :: AceType where "AceTypeAccessDeniedCallback = 10"
definition AceTypeAccessAllowedCallbackObject :: AceType where
  "AceTypeAccessAllowedCallbackObject = 11"
definition AceTypeAccessDeniedCallbackObject :: AceType where
  "AceTypeAccessDeniedCallbackObject = 12"
definition AceTypeSystemAuditCallback :: AceType where "AceTypeSystemAuditCallback = 13"
definition AceTypeSystemAlarmCallback :: AceType where "AceTypeSystemAlarmCallback = 14"
definition AceTypeSystemAuditCallbackObject :: AceType where
  "AceTypeSystemAuditCallbackObject = 15"
definition AceTypeSystemAlarmCallbackObject :: AceType where
  "AceTypeSystemAlarmCallbackObject = 16"

definition ACEInheritanceFlagsObjectTypePresent :: u32 where
  "ACEInheritanceFlagsObjectTypePresent = 0x01"
definition ACEInheritanceFlagsInheritedObjectTypePresent :: u32 where
  "ACEInheritanceFlagsInheritedObjectTypePresent = 0x02"

record ACEHeader =
  Type :: AceType
  Flags :: u8
  Size :: u16

record ACEAccessMask =
  Value :: u32

text \<open>The tests fix \<open>Raw\<close>: it returns the mask's value.\<close>

definition Raw :: "ACEAccessMask \<Rightarrow> u32" where
  "Raw m = Value m"

record BasicAce =
  SecurityIdentifier :: SID

record AdvancedAce =
  adv_Flags :: u32
  ObjectType :: GUID
  InheritedObjectType :: GUID
  adv_SecurityIdentifier :: SID

text \<open>
  The interface-typed field \<open>ObjectAce\<close> of an ACE: one of the two body records, or
  the nil interface (the field's zero value).
\<close>

datatype ObjectAce = NilAce | Basic BasicAce | Advanced AdvancedAce

record ACE =
  Header :: ACEHeader
  AccessMask :: ACEAccessMask
  ObjectAce :: ObjectAce

text \<open>
  Modelled from the spec: the method is declared with the ACE types, which are not among
  the sources.  Both bodies yield the principal SID the ACE concerns; calling it on the nil
  interface panics.
\<close>

definition GetPrincipal :: "ObjectAce \<Rightarrow> panic + SID" where
  "GetPrincipal oa =
     (case oa of
        NilAce \<Rightarrow> Inl ''nil pointer dereference''
      | Basic b \<Rightarrow> Inr (SecurityIdentifier b)
      | Advanced a \<Rightarrow> Inr (adv_SecurityIdentifier a))"

record ACLHeader =
  acl_Revision :: u8
  acl_Sbz1 :: u8
  acl_Size :: u16
  AceCount :: u16
  acl_Sbz2 :: u16

record ACL =
  acl_Header :: ACLHeader
  Aces :: "ACE list"

record NtSecurityDescriptorHeader =
  sd_Revision :: u8
  sd_Sbz1 :: u8
  Control :: u16
  OffsetOwner :: u32
  OffsetGroup :: u32
  OffsetSacl :: u32
  OffsetDacl :: u32

record NtSecurityDescriptor =
  sd_Header :: NtSecurityDescriptorHeader
  DACL :: ACL
  SACL :: ACL
  Owner :: SID
  Group :: SID

definition zero_ACEHeader :: ACEHeader where
  "zero_ACEHeader = \<lparr>Type = 0, Flags = 0, Size = 0\<rparr>"

definition zero_ACE :: ACE where
  "zero_ACE = \<lparr>Header = zero_ACEHeader, AccessMask = \<lparr>Value = 0\<rparr>, ObjectAce = NilAce\<rparr>"

definition zero_ACLHeader :: ACLHeader where
  "zero_ACLHeader = \<lparr>acl_Revision = 0, acl_Sbz1 = 0, acl_Size = 0, AceCount = 0, acl_Sbz2 = 0\<rparr>"

definition zero_ACL :: ACL where
  "zero_ACL = \<lparr>acl_Header = zero_ACLHeader, Aces = []\<rparr>"

definition zero_NtSecurityDescriptorHeader :: NtSecurityDescriptorHeader where
  "zero_NtSecurityDescriptorHeader =
     \<lparr>sd_Revision = 0, sd_Sbz1 = 0, Control = 0, OffsetOwner = 0, OffsetGroup = 0,
      OffsetSacl = 0, OffsetDacl = 0\<rparr>"

definition zero_NtSecurityDescriptor :: NtSecurityDescriptor where
  "zero_NtSecurityDescriptor =
     \<lparr>sd_Header = zero_NtSecurityDescriptorHeader, DACL = zero_ACL, SACL = zero_ACL,
      Owner = zero_SID, Group = zero_SID\<rparr>"

section \<open>The access check\<close>

record CheckDetails =
  Step :: string
  Description :: string
  Outcome :: bool

record AccessCheckResult =
  Granted :: bool
  Reason :: string
  Ace :: "ACE option"
  Access :: u32
  Details :: "CheckDetails list"

record TokenUser =
  UserSID :: SID
  Groups :: "SID list"
  tok_Flags :: u32

definition NewTokenUser :: "SID \<Rightarrow> SID list \<Rightarrow> TokenUser" where
  "NewTokenUser userSID groups = \<lparr>UserSID = userSID, Groups = groups, tok_Flags = 0\<rparr>"

record AccessCheckOptions =
  IgnoreObjectType :: bool
  CheckIntegrity :: bool
  IntegrityPolicy :: IntegrityLevelPolicy
  SubjectIntegrity :: IntegrityLevel
  ObjectIntegrity :: IntegrityLevel
  GenericMapping :: "(u32 \<rightharpoonup> u32) option"

definition DefaultAccessCheckOptions :: AccessCheckOptions where
  "DefaultAccessCheckOptions =
     \<lparr>IgnoreObjectType = True,
      CheckIntegrity = False,
      IntegrityPolicy = PolicyNoWriteUp,
      SubjectIntegrity = 0,
      ObjectIntegrity = 0,
      GenericMapping = Some
        [AccessMaskGenericRead \<mapsto> AccessMaskReadControl,
         AccessMaskGenericWrite \<mapsto> AccessMaskWriteDACL OR AccessMaskWriteOwner,
         AccessMaskGenericExecute \<mapsto> AccessMaskSynchronize,
         AccessMaskGenericAll \<mapsto> 0xFFFFFFFF]\<rparr>"

text \<open>The loop of \<open>aceAppliesToToken\<close> over the token's groups.\<close>

fun groups_match :: "string \<Rightarrow> SID list \<Rightarrow> panic + (bool \<times> string)" where
  "groups_match aceSIDStr [] = Inr (False, ''No SID match found'')"
| "groups_match aceSIDStr (grp # rest) =
     (case SID_String grp of
        Inl p \<Rightarrow> Inl p
      | Inr groupStr \<Rightarrow>
          if aceSIDStr = groupStr then Inr (True, ''Matches a group SID'')
          else groups_match aceSIDStr rest)"

text \<open>The part of \<open>aceAppliesToToken\<close> after the type switch has found the ACE's SID.\<close>

definition sid_applies :: "SID \<Rightarrow> TokenUser \<Rightarrow> panic + (bool \<times> string)" where
  "sid_applies aceSID token =
     (case SID_String aceSID of
        Inl p \<Rightarrow> Inl p
      | Inr aceSIDStr \<Rightarrow>
          if aceSIDStr = ''S-1-1-0'' then Inr (True, ''Everyone SID matches all tokens'')
          else (case SID_String (UserSID token) of
                  Inl p \<Rightarrow> Inl p
                | Inr userStr \<Rightarrow>
                    if aceSIDStr = userStr then Inr (True, ''Directly matches user SID'')
                    else groups_match aceSIDStr (Groups token)))"

definition aceAppliesToToken ::
  "ACE \<Rightarrow> TokenUser \<Rightarrow> AccessCheckOptions \<Rightarrow> panic + (bool \<times> string)" where
  "aceAppliesToToken ace token options =
     (case ObjectAce ace of
        Basic oa \<Rightarrow> sid_applies (SecurityIdentifier oa) token
      | Advanced oa \<Rightarrow> sid_applies (adv_SecurityIdentifier oa) token
      | NilAce \<Rightarrow> Inr (False, ''Unknown ACE object type''))"

text \<open>\<open>result.Details = append(result.Details, CheckDetails{...})\<close>\<close>

definition add_detail :: "AccessCheckResult \<Rightarrow> string \<Rightarrow> string \<Rightarrow> bool \<Rightarrow> AccessCheckResult" where
  "add_detail result step description outcome =
     result\<lparr>Details := Details result @
       [\<lparr>Step = step, Description = description, Outcome = outcome\<rparr>]\<rparr>"

text \<open>A loop of \<open>AccessCheck\<close> either returns from the function or falls through.\<close>

datatype 'a flow = Returned AccessCheckResult | Continue 'a

text \<open>
  The first loop, over the deny ACEs: \<open>i\<close> is the index of the head of the list in the
  DACL; the state is the result under construction and \<open>deniedAccess\<close>.
\<close>

fun deny_pass ::
  "TokenUser \<Rightarrow> AccessCheckOptions \<Rightarrow> u32 \<Rightarrow> nat \<Rightarrow> ACE list \<Rightarrow> AccessCheckResult \<Rightarrow> u32 \<Rightarrow>
   panic + (AccessCheckResult \<times> u32) flow" where
  "deny_pass token options mappedAccess i [] result deniedAccess =
     Inr (Continue (result, deniedAccess))"
| "deny_pass token options mappedAccess i (ace # rest) result deniedAccess =
     (if Type (Header ace) \<noteq> AceTypeAccessDenied
      then deny_pass token options mappedAccess (Suc i) rest result deniedAccess
      else
        (case aceAppliesToToken ace token options of
           Inl p \<Rightarrow> Inl p
         | Inr (applies, reason) \<Rightarrow>
             let result1 = add_detail result (''DenyACE['' @ fmt_nat i @ '']'')
                   (''Checking if deny ACE applies: '' @ fmt_bool applies @ '' - '' @ reason)
                   applies;
                 aceMappedAccess = MapGenericAccess (Raw (AccessMask ace)) (GenericMapping options)
             in
               if applies \<and> aceMappedAccess AND mappedAccess \<noteq> 0
               then
                 let result2 = result1\<lparr>Reason := ''Access explicitly denied by ACE '' @ fmt_nat i\<rparr>;
                     deniedAccess' = deniedAccess OR (aceMappedAccess AND mappedAccess);
                     result3 = add_detail result2 (''DenyACE['' @ fmt_nat i @ '']Match'')
                       (''Access denied by ACE - access mask 0x'' @
                        fmt_hex8 (aceMappedAccess AND mappedAccess))
                       False
                 in
                   if deniedAccess' = mappedAccess
                   then Inr (Returned (result3\<lparr>Ace := Some ace\<rparr>))
                   else deny_pass token options mappedAccess (Suc i) rest result3 deniedAccess'
               else deny_pass token options mappedAccess (Suc i) rest result1 deniedAccess))"

text \<open>
  The second loop, over the allow ACEs; the state is the result under construction and
  \<open>grantedAccess\<close>.  The \<open>break\<close> ends the recursion.
\<close>

fun allow_pass ::
  "TokenUser \<Rightarrow> AccessCheckOptions \<Rightarrow> u32 \<Rightarrow> u32 \<Rightarrow> nat \<Rightarrow> ACE list \<Rightarrow> AccessCheckResult \<Rightarrow> u32 \<Rightarrow>
   panic + (AccessCheckResult \<times> u32)" where
  "allow_pass token options mappedAccess deniedAccess i [] result grantedAccess =
     Inr (result, grantedAccess)"
| "allow_pass token options mappedAccess deniedAccess i (ace # rest) result grantedAccess =
     (if Type (Header ace) \<noteq> AceTypeAccessAllowed
      then allow_pass token options mappedAccess deniedAccess (Suc i) rest result grantedAccess
      else
        (case aceAppliesToToken ace token options of
           Inl p \<Rightarrow> Inl p
         | Inr (applies, reason) \<Rightarrow>
             let result1 = add_detail result (''AllowACE['' @ fmt_nat i @ '']'')
                   (''Checking if allow ACE applies: '' @ fmt_bool applies @ '' - '' @ reason)
                   applies;
                 aceMappedAccess = MapGenericAccess (Raw (AccessMask ace)) (GenericMapping options);
                 allowedByThisAce = aceMappedAccess AND mappedAccess AND NOT deniedAccess
             in
               if applies \<and> allowedByThisAce \<noteq> 0
               then
                 let grantedAccess' = grantedAccess OR allowedByThisAce;
                     result2 = add_detail result1 (''AllowACE['' @ fmt_nat i @ '']Match'')
                       (''Access allowed by ACE - access mask 0x'' @ fmt_hex8 allowedByThisAce)
                       True
                 in
                   if grantedAccess' OR deniedAccess = mappedAccess
                   then Inr (result2, grantedAccess')
                   else allow_pass token options mappedAccess deniedAccess (Suc i) rest
                          result2 grantedAccess'
               else allow_pass token options mappedAccess deniedAccess (Suc i) rest
                      result1 grantedAccess))"

text \<open>The last block of \<open>AccessCheck\<close>: the decision from the two accumulated masks.\<close>

definition final_decision :: "AccessCheckResult \<Rightarrow> u32 \<Rightarrow> u32 \<Rightarrow> u32 \<Rightarrow> AccessCheckResult" where
  "final_decision result mappedAccess grantedAccess deniedAccess =
     (let remainingAccess = mappedAccess AND NOT (grantedAccess OR deniedAccess)
      in if remainingAccess = 0 \<and> grantedAccess = mappedAccess
         then add_detail
                (result\<lparr>Granted := True, Reason := ''Access granted by ACL'',
                        Access := grantedAccess\<rparr>)
                ''FinalDecision'' ''All requested access rights were granted'' True
         else add_detail
                (result\<lparr>Granted := False,
                        Reason := (if deniedAccess \<noteq> 0
                                   then ''Some requested access was explicitly denied''
                                   else ''Some requested access was not granted by any ACE''),
                        Access := grantedAccess\<rparr>)
                ''FinalDecision''
                (''Access partially granted: requested='' @ fmt_hex8 mappedAccess @
                 '', granted='' @ fmt_hex8 grantedAccess @
                 '', denied='' @ fmt_hex8 deniedAccess @
                 '', unmatched='' @ fmt_hex8 remainingAccess)
                False)"

text \<open>The part of \<open>AccessCheck\<close> after the empty-DACL test: owner check and the two loops.\<close>

definition check_dacl ::
  "NtSecurityDescriptor \<Rightarrow> TokenUser \<Rightarrow> AccessCheckOptions \<Rightarrow> u32 \<Rightarrow> AccessCheckResult \<Rightarrow>
   panic + AccessCheckResult" where
  "check_dacl securityDescriptor token options mappedAccess result =
     (case SID_String (UserSID token) of
        Inl p \<Rightarrow> Inl p
      | Inr userStr \<Rightarrow>
     (case SID_String (Owner securityDescriptor) of
        Inl p \<Rightarrow> Inl p
      | Inr ownerStr \<Rightarrow>
          let isOwner = (userStr = ownerStr);
              ownerRights = AccessMaskReadControl OR AccessMaskWriteDACL;
              result1 = add_detail result ''OwnerCheck''
                          (''Checking if user is owner: '' @ fmt_bool isOwner) isOwner
          in
            if isOwner \<and> mappedAccess AND NOT ownerRights = 0
            then Inr (add_detail
                        (result1\<lparr>Granted := True, Reason := ''Access granted to owner'',
                                 Access := mappedAccess AND ownerRights\<rparr>)
                        ''OwnerRights'' ''Access granted based on ownership'' True)
            else
              (case deny_pass token options mappedAccess 0 (Aces (DACL securityDescriptor))
                      result1 0 of
                 Inl p \<Rightarrow> Inl p
               | Inr (Returned r) \<Rightarrow> Inr r
               | Inr (Continue (result2, deniedAccess)) \<Rightarrow>
                   (case allow_pass token options mappedAccess deniedAccess 0
                           (Aces (DACL securityDescriptor)) result2 0 of
                      Inl p \<Rightarrow> Inl p
                    | Inr (result3, grantedAccess) \<Rightarrow>
                        Inr (final_decision result3 mappedAccess grantedAccess deniedAccess)))))"

text \<open>A nil \<open>options\<close> pointer is \<open>None\<close>: the defaults replace it.\<close>

definition options_or_default :: "AccessCheckOptions option \<Rightarrow> AccessCheckOptions" where
  "options_or_default options_ptr =
     (case options_ptr of None \<Rightarrow> DefaultAccessCheckOptions | Some opts \<Rightarrow> opts)"

definition AccessCheck ::
  "NtSecurityDescriptor \<Rightarrow> TokenUser \<Rightarrow> u32 \<Rightarrow> AccessCheckOptions option \<Rightarrow>
   panic + AccessCheckResult" where
  "AccessCheck securityDescriptor token desiredAccess options_ptr =
     (let result = \<lparr>Granted = False, Reason = [], Ace = None, Access = 0, Details = []\<rparr>;
          options = options_or_default options_ptr;
          mappedAccess = MapGenericAccess desiredAccess (GenericMapping options);
          integrityCheck = CheckAccess (SubjectIntegrity options) (ObjectIntegrity options)
                             (IntegrityPolicy options) mappedAccess;
          result1 = (if CheckIntegrity options
                     then add_detail result ''IntegrityLevel''
                            (''Checking if integrity level '' @
                             IntegrityLevel_String (SubjectIntegrity options) @
                             '' can access '' @
                             IntegrityLevel_String (ObjectIntegrity options) @
                             '' with policy '' @ fmt_nat (unat (IntegrityPolicy options)))
                            integrityCheck
                     else result)
      in
        if CheckIntegrity options \<and> \<not> integrityCheck
        then Inr (result1\<lparr>Reason := ''Access denied by integrity level policy''\<rparr>)
        else if length (Aces (DACL securityDescriptor)) = 0
        then Inr (add_detail
                    (result1\<lparr>Granted := True, Reason := ''No DACL present (full access)'',
                             Access := mappedAccess\<rparr>)
                    ''EmptyDACL'' ''No DACL present; full access granted'' True)
        else check_dacl securityDescriptor token options mappedAccess result1)"

section \<open>Decoding from a byte buffer\<close>

text \<open>
  A \<open>bytes.Buffer\<close> is the list of its unread bytes; a decoder takes the buffer and
  returns it advanced.  A Go result \<open>(T, error)\<close> is a pair whose second component is
  \<open>None\<close> for a nil error: the value is returned also when the error is not nil.
\<close>

type_synonym buffer = "u8 list"

datatype error =
    EOF
  | ErrUnexpectedEOF
  | SIDInvalidError string
  | Errorf string
  | Wrapf string error  \<comment> \<open>\<open>fmt.Errorf("<text>: %w", err)\<close>\<close>

text \<open>
  \<open>binary.Read\<close> of a value of \<open>n\<close> bytes: \<open>io.ReadFull\<close> takes \<open>n\<close> bytes, or fails
  with \<open>EOF\<close> on an empty buffer and with \<open>ErrUnexpectedEOF\<close> on a shorter one, which it
  drains.
\<close>

definition read_bytes :: "nat \<Rightarrow> buffer \<Rightarrow> (error + u8 list) \<times> buffer" where
  "read_bytes n buf =
     (if n \<le> length buf then (Inr (take n buf), drop n buf)
      else if buf = [] then (Inl EOF, [])
      else (Inl ErrUnexpectedEOF, []))"

text \<open>\<open>buf.Next(n)\<close>: the next \<open>n\<close> bytes, or all the bytes left when there are fewer.\<close>

definition Next_bytes :: "nat \<Rightarrow> buffer \<Rightarrow> u8 list \<times> buffer" where
  "Next_bytes n buf = (take n buf, drop n buf)"

definition le16 :: "u8 list \<Rightarrow> u16" where
  "le16 bs = ucast (bs ! 0) OR push_bit 8 (ucast (bs ! 1))"

definition le32 :: "u8 list \<Rightarrow> u32" where
  "le32 bs = ucast (bs ! 0) OR push_bit 8 (ucast (bs ! 1)) OR push_bit 16 (ucast (bs ! 2)) OR
             push_bit 24 (ucast (bs ! 3))"

subsection \<open>SIDs and GUIDs\<close>

definition NewSID :: "buffer \<Rightarrow> nat \<Rightarrow> (SID \<times> error option) \<times> buffer" where
  "NewSID buf sidLength =
     (case Next_bytes sidLength buf of
        (data, buf') \<Rightarrow>
          if length data < 8
          then ((zero_SID, Some (SIDInvalidError ''SID data too short'')), buf')
          else
            let revision = data ! 0 in
            if revision \<noteq> 1
            then ((zero_SID, Some (SIDInvalidError ''invalid SID revision'')), buf')
            else
              let numAuth = data ! 1 in
              if numAuth > 15
              then ((zero_SID, Some (SIDInvalidError ''invalid number of subauthorities'')), buf')
              else
                let expectedLength = 8 + unat numAuth * 4 in
                if length data < expectedLength
                then ((zero_SID,
                       Some (SIDInvalidError ''SID data too short for subauthorities'')), buf')
                else
                  ((\<lparr>Revision = revision,
                     NumAuthorities = numAuth,
                     Authority = take 6 (drop 2 data),
                     SubAuthorities =
                       map (\<lambda>i. le32 (take 4 (drop (8 + i * 4) data))) [0 ..< unat numAuth]\<rparr>,
                    None), buf'))"

text \<open>
  Modelled from the spec: the two-result \<open>NewGUID\<close> that \<open>NewAdvancedAce\<close> calls is not
  among the sources (pkg/guid.go holds a one-result variant).  A GUID is the 16-byte
  little-endian record of four fields; the tests demand an error on a buffer too short.
\<close>

definition NewGUID :: "buffer \<Rightarrow> (GUID \<times> error option) \<times> buffer" where
  "NewGUID buf =
     (case read_bytes 16 buf of
        (Inl e, buf') \<Rightarrow> ((zero_GUID, Some e), buf')
      | (Inr bs, buf') \<Rightarrow>
          ((\<lparr>Data1 = le32 (take 4 bs), Data2 = le16 (take 2 (drop 4 bs)),
             Data3 = le16 (take 2 (drop 6 bs)), Data4 = drop 8 bs\<rparr>, None), buf'))"

subsection \<open>ACEs\<close>

definition NewACEHeader :: "buffer \<Rightarrow> (ACEHeader \<times> error option) \<times> buffer" where
  "NewACEHeader buf =
     (case read_bytes 4 buf of
        (Inl e, buf') \<Rightarrow> ((zero_ACEHeader, Some (Wrapf ''reading ACE header'' e)), buf')
      | (Inr bs, buf') \<Rightarrow>
          ((\<lparr>Type = bs ! 0, Flags = bs ! 1, Size = le16 (drop 2 bs)\<rparr>, None), buf'))"

definition zero_BasicAce :: BasicAce where
  "zero_BasicAce = \<lparr>SecurityIdentifier = zero_SID\<rparr>"

definition zero_AdvancedAce :: AdvancedAce where
  "zero_AdvancedAce =
     \<lparr>adv_Flags = 0, ObjectType = zero_GUID, InheritedObjectType = zero_GUID,
      adv_SecurityIdentifier = zero_SID\<rparr>"

definition NewBasicAce :: "buffer \<Rightarrow> u16 \<Rightarrow> (BasicAce \<times> error option) \<times> buffer" where
  "NewBasicAce buf totalSize =
     (let oa = zero_BasicAce;
          sidSize = int (unat totalSize) - 8
      in if sidSize \<le> 0
         then ((oa, Some (Errorf (''invalid ACE size for SID: '' @ fmt_int sidSize))), buf)
         else
           (case NewSID buf (nat sidSize) of
              ((sid, Some err), buf') \<Rightarrow>
                ((oa, Some (Wrapf ''parsing SID in basic ACE'' err)), buf')
            | ((sid, None), buf') \<Rightarrow> ((oa\<lparr>SecurityIdentifier := sid\<rparr>, None), buf')))"

text \<open>
  The two optional GUIDs of \<open>NewAdvancedAce\<close>: read when the flag bit is set, adding 16
  to the offset.  The result is \<open>Inl\<close> of the function's early return, or \<open>Inr\<close> of the
  state to go on with.
\<close>

definition NewAdvancedAce :: "buffer \<Rightarrow> u16 \<Rightarrow> (AdvancedAce \<times> error option) \<times> buffer" where
  "NewAdvancedAce buf totalSize =
     (let oa = zero_AdvancedAce in
      case read_bytes 4 buf of
        (Inl e, buf1) \<Rightarrow> ((oa, Some (Wrapf ''reading ACE inheritance flags'' e)), buf1)
      | (Inr bs, buf1) \<Rightarrow>
          let oa1 = oa\<lparr>adv_Flags := le32 bs\<rparr>;
              offset = (12 :: int);
              step1 =
                (if adv_Flags oa1 AND ACEInheritanceFlagsObjectTypePresent \<noteq> 0
                 then (case NewGUID buf1 of
                         ((g, Some err), buf2) \<Rightarrow>
                           Inl ((oa1\<lparr>ObjectType := g\<rparr>,
                                 Some (Wrapf ''reading object type GUID'' err)), buf2)
                       | ((g, None), buf2) \<Rightarrow> Inr (oa1\<lparr>ObjectType := g\<rparr>, offset + 16, buf2))
                 else Inr (oa1, offset, buf1))
          in
            (case step1 of
               Inl early \<Rightarrow> early
             | Inr (oa2, offset2, buf2) \<Rightarrow>
                 let step2 =
                   (if adv_Flags oa2 AND ACEInheritanceFlagsInheritedObjectTypePresent \<noteq> 0
                    then (case NewGUID buf2 of
                            ((g, Some err), buf3) \<Rightarrow>
                              Inl ((oa2\<lparr>InheritedObjectType := g\<rparr>,
                                    Some (Wrapf ''reading inherited object type GUID'' err)), buf3)
                          | ((g, None), buf3) \<Rightarrow>
                              Inr (oa2\<lparr>InheritedObjectType := g\<rparr>, offset2 + 16, buf3))
                    else Inr (oa2, offset2, buf2))
                 in
                   (case step2 of
                      Inl early \<Rightarrow> early
                    | Inr (oa3, offset3, buf3) \<Rightarrow>
                        let sidSize = int (unat totalSize) - offset3 in
                        if sidSize \<le> 0
                        then ((oa3, Some (Errorf (''invalid advanced ACE size for SID: '' @
                                                  fmt_int sidSize))), buf3)
                        else
                          (case NewSID buf3 (nat sidSize) of
                             ((sid, Some err), buf4) \<Rightarrow>
                               ((oa3, Some (Wrapf ''parsing SID in advanced ACE'' err)), buf4)
                           | ((sid, None), buf4) \<Rightarrow>
                               ((oa3\<lparr>adv_SecurityIdentifier := sid\<rparr>, None), buf4)))))"

definition basic_ace_types :: "AceType list" where
  "basic_ace_types =
     [AceTypeAccessAllowed, AceTypeAccessDenied, AceTypeSystemAudit, AceTypeSystemAlarm,
      AceTypeAccessAllowedCallback, AceTypeAccessDeniedCallback, AceTypeSystemAuditCallback,
      AceTypeSystemAlarmCallback]"

definition object_ace_types :: "AceType list" where
  "object_ace_types =
     [AceTypeAccessAllowedObject, AceTypeAccessDeniedObject, AceTypeSystemAuditObject,
      AceTypeSystemAlarmObject, AceTypeAccessAllowedCallbackObject,
      AceTypeAccessDeniedCallbackObject, AceTypeSystemAuditCallbackObject,
      AceTypeSystemAlarmCallbackObject]"

definition NewAce :: "buffer \<Rightarrow> (ACE \<times> error option) \<times> buffer" where
  "NewAce buf =
     (let ace = zero_ACE in
      case NewACEHeader buf of
        ((h, Some err), buf1) \<Rightarrow>
          ((ace\<lparr>Header := h\<rparr>, Some (Wrapf ''reading ACE header'' err)), buf1)
      | ((h, None), buf1) \<Rightarrow>
          let ace1 = ace\<lparr>Header := h\<rparr> in
          (case read_bytes 4 buf1 of
             (Inl e, buf2) \<Rightarrow> ((ace1, Some (Wrapf ''reading ACE access mask'' e)), buf2)
           | (Inr bs, buf2) \<Rightarrow>
               let ace2 = ace1\<lparr>AccessMask := \<lparr>Value = le32 bs\<rparr>\<rparr> in
               if Type (Header ace2) \<in> set basic_ace_types
               then (case NewBasicAce buf2 (Size (Header ace2)) of
                       ((oa, Some err), buf3) \<Rightarrow>
                         ((ace2\<lparr>ObjectAce := Basic oa\<rparr>, Some (Wrapf ''parsing basic ACE'' err)),
                          buf3)
                     | ((oa, None), buf3) \<Rightarrow> ((ace2\<lparr>ObjectAce := Basic oa\<rparr>, None), buf3))
               else if Type (Header ace2) \<in> set object_ace_types
               then (case NewAdvancedAce buf2 (Size (Header ace2)) of
                       ((oa, Some err), buf3) \<Rightarrow>
                         ((ace2\<lparr>ObjectAce := Advanced oa\<rparr>,
                           Some (Wrapf ''parsing advanced ACE'' err)), buf3)
                     | ((oa, None), buf3) \<Rightarrow> ((ace2\<lparr>ObjectAce := Advanced oa\<rparr>, None), buf3))
               else ((ace2, Some (Errorf (''unknown ACE type: '' @
                                          fmt_nat (unat (Type (Header ace2)))))), buf2)))"

subsection \<open>ACLs\<close>

definition NewACLHeader :: "buffer \<Rightarrow> (ACLHeader \<times> error option) \<times> buffer" where
  "NewACLHeader buf =
     (case read_bytes 8 buf of
        (Inl e, buf') \<Rightarrow> ((zero_ACLHeader, Some (Wrapf ''reading ACL header'' e)), buf')
      | (Inr bs, buf') \<Rightarrow>
          ((\<lparr>acl_Revision = bs ! 0, acl_Sbz1 = bs ! 1, acl_Size = le16 (drop 2 bs),
             AceCount = le16 (drop 4 bs), acl_Sbz2 = le16 (drop 6 bs)\<rparr>, None), buf'))"

text \<open>
  The loop of \<open>NewACL\<close>: \<open>i\<close> is the loop index, the second number counts the iterations
  left (\<open>AceCount - i\<close>).
\<close>

fun NewACL_loop :: "nat \<Rightarrow> nat \<Rightarrow> ACL \<Rightarrow> buffer \<Rightarrow> (ACL \<times> error option) \<times> buffer" where
  "NewACL_loop i 0 acl buf = ((acl, None), buf)"
| "NewACL_loop i (Suc k) acl buf =
     (case NewAce buf of
        ((ace, Some err), buf') \<Rightarrow> ((acl, Some (Wrapf (''reading ACE '' @ fmt_nat i) err)), buf')
      | ((ace, None), buf') \<Rightarrow> NewACL_loop (Suc i) k (acl\<lparr>Aces := Aces acl @ [ace]\<rparr>) buf')"

definition NewACL :: "buffer \<Rightarrow> (ACL \<times> error option) \<times> buffer" where
  "NewACL buf =
     (case NewACLHeader buf of
        ((h, Some err), buf') \<Rightarrow>
          ((zero_ACL\<lparr>acl_Header := h\<rparr>, Some (Wrapf ''reading ACL header'' err)), buf')
      | ((h, None), buf') \<Rightarrow>
          NewACL_loop 0 (unat (AceCount h)) (zero_ACL\<lparr>acl_Header := h, Aces := []\<rparr>) buf')"

subsection \<open>Security descriptors\<close>

definition NewNTSDHeader :: "buffer \<Rightarrow> (NtSecurityDescriptorHeader \<times> error option) \<times> buffer" where
  "NewNTSDHeader buf =
     (case read_bytes 20 buf of
        (Inl e, buf') \<Rightarrow>
          ((zero_NtSecurityDescriptorHeader, Some (Wrapf ''reading NTSD header'' e)), buf')
      | (Inr bs, buf') \<Rightarrow>
          ((\<lparr>sd_Revision = bs ! 0, sd_Sbz1 = bs ! 1, Control = le16 (drop 2 bs),
             OffsetOwner = le32 (drop 4 bs), OffsetGroup = le32 (drop 8 bs),
             OffsetSacl = le32 (drop 12 bs), OffsetDacl = le32 (drop 16 bs)\<rparr>, None), buf'))"

text \<open>
  The only panic of \<open>NewNtSecurityDescriptor\<close> is \<open>GetPrincipal\<close> on a nil interface;
  the buffer is local to the function.
\<close>

definition NewNtSecurityDescriptor ::
  "u8 list \<Rightarrow> panic + (NtSecurityDescriptor \<times> error option)" where
  "NewNtSecurityDescriptor ntsdBytes =
     (let ntsd = zero_NtSecurityDescriptor in
      case NewNTSDHeader ntsdBytes of
        ((h, Some err), buf1) \<Rightarrow>
          Inr (ntsd\<lparr>sd_Header := h\<rparr>, Some (Wrapf ''parsing security descriptor header'' err))
      | ((h, None), buf1) \<Rightarrow>
          let ntsd1 = ntsd\<lparr>sd_Header := h\<rparr> in
          (case NewACL buf1 of
             ((dacl, Some err), buf2) \<Rightarrow> Inr (ntsd1\<lparr>DACL := dacl\<rparr>, Some (Wrapf ''parsing DACL'' err))
           | ((dacl, None), buf2) \<Rightarrow>
               let ntsd2 = ntsd1\<lparr>DACL := dacl\<rparr>;
                   sidSize = OffsetGroup (sd_Header ntsd2) - OffsetOwner (sd_Header ntsd2)
               in
                 if sidSize = 0
                 then
                   (if length (Aces (DACL ntsd2)) > 0
                    then (case GetPrincipal (ObjectAce (Aces (DACL ntsd2) ! 0)) of
                            Inl p \<Rightarrow> Inl p
                          | Inr sid \<Rightarrow>
                              Inr (ntsd2\<lparr>Owner := sid, Group := sid\<rparr>, None))
                    else Inr (ntsd2, None))
                 else
                   (case NewSID buf2 (unat sidSize) of
                      ((owner, Some err), buf3) \<Rightarrow>
                        Inr (ntsd2\<lparr>Owner := owner\<rparr>, Some (Wrapf ''parsing owner SID'' err))
                    | ((owner, None), buf3) \<Rightarrow>
                        let ntsd3 = ntsd2\<lparr>Owner := owner\<rparr> in
                        (case NewSID buf3 (unat sidSize) of
                           ((grp, Some err), buf4) \<Rightarrow>
                             Inr (ntsd3\<lparr>Group := grp\<rparr>, Some (Wrapf ''parsing group SID'' err))
                         | ((grp, None), buf4) \<Rightarrow> Inr (ntsd3\<lparr>Group := grp\<rparr>, None)))))"

section \<open>The ACE constructors of the tests\<close>

definition NewAccessAllowedACE :: "SID \<Rightarrow> u32 \<Rightarrow> ACE" where
  "NewAccessAllowedACE sid v =
     \<lparr>Header = \<lparr>Type = AceTypeAccessAllowed, Flags = 0,
                 Size = 8 + word_of_nat (8 + 4 * unat (NumAuthorities sid))\<rparr>,
      AccessMask = \<lparr>Value = v\<rparr>,
      ObjectAce = Basic \<lparr>SecurityIdentifier = sid\<rparr>\<rparr>"

definition NewAccessDeniedACE :: "SID \<Rightarrow> u32 \<Rightarrow> ACE" where
  "NewAccessDeniedACE sid v =
     \<lparr>Header = \<lparr>Type = AceTypeAccessDenied, Flags = 0,
                 Size = 8 + word_of_nat (8 + 4 * unat (NumAuthorities sid))\<rparr>,
      AccessMask = \<lparr>Value = v\<rparr>,
      ObjectAce = Basic \<lparr>SecurityIdentifier = sid\<rparr>\<rparr>"

text \<open>The SIDs the tests build with \<open>NewSIDFromString\<close>, and the options of two of them.\<close>

definition everyoneSID :: SID where
  "everyoneSID =
     \<lparr>Revision = 1, NumAuthorities = 1, Authority = [0, 0, 0, 0, 0, 1], SubAuthorities = [0]\<rparr>"

definition adminSID :: SID where
  "adminSID =
     \<lparr>Revision = 1, NumAuthorities = 2, Authority = [0, 0, 0, 0, 0, 5],
      SubAuthorities = [32, 544]\<rparr>"

definition userSID :: SID where
  "userSID =
     \<lparr>Revision = 1, NumAuthorities = 5, Authority = [0, 0, 0, 0, 0, 5],
      SubAuthorities = [21, 1234567890, 1234567890, 1234567890, 1001]\<rparr>"

definition test_descriptor :: "ACE list \<Rightarrow> NtSecurityDescriptor" where
  "test_descriptor aces =
     zero_NtSecurityDescriptor\<lparr>Owner := adminSID, Group := adminSID,
                                DACL := zero_ACL\<lparr>Aces := aces\<rparr>\<rparr>"

definition partial_access_options :: AccessCheckOptions where
  "partial_access_options =
     \<lparr>IgnoreObjectType = False,
      CheckIntegrity = False,
      IntegrityPolicy = 0,
      SubjectIntegrity = 0,
      ObjectIntegrity = 0,
      GenericMapping = Some
        [AccessMaskGenericRead \<mapsto> AccessMaskReadControl,
         AccessMaskGenericWrite \<mapsto> AccessMaskWriteDACL,
         AccessMaskGenericExecute \<mapsto> AccessMaskSynchronize,
         AccessMaskGenericAll \<mapsto> 0xFFFFFFFF]\<rparr>"

section \<open>What the claims speak of\<close>

subsection \<open>The generic-rights mapping, in the words of the specification\<close>

text \<open>
  For a generic bit present in the mask with a table entry: the entry's specific bits are
  contributed, and the generic bit is cleared from the mask.
\<close>

definition generic_contrib :: "(u32 \<rightharpoonup> u32) \<Rightarrow> u32 \<Rightarrow> u32 \<Rightarrow> u32" where
  "generic_contrib m access g =
     (if access AND g \<noteq> 0 then (case m g of Some s \<Rightarrow> s | None \<Rightarrow> 0) else 0)"

definition generic_cleared :: "(u32 \<rightharpoonup> u32) \<Rightarrow> u32 \<Rightarrow> u32 \<Rightarrow> u32" where
  "generic_cleared m access g = (if access AND g \<noteq> 0 \<and> m g \<noteq> None then g else 0)"

definition mapped_specific_bits :: "(u32 \<rightharpoonup> u32) \<Rightarrow> u32 \<Rightarrow> u32" where
  "mapped_specific_bits m access =
     generic_contrib m access AccessMaskGenericRead OR
     generic_contrib m access AccessMaskGenericWrite OR
     generic_contrib m access AccessMaskGenericExecute OR
     generic_contrib m access AccessMaskGenericAll"

definition cleared_generic_bits :: "(u32 \<rightharpoonup> u32) \<Rightarrow> u32 \<Rightarrow> u32" where
  "cleared_generic_bits m access =
     generic_cleared m access AccessMaskGenericRead OR
     generic_cleared m access AccessMaskGenericWrite OR
     generic_cleared m access AccessMaskGenericExecute OR
     generic_cleared m access AccessMaskGenericAll"

definition spec_MapGenericAccess :: "u32 \<Rightarrow> (u32 \<rightharpoonup> u32) option \<Rightarrow> u32" where
  "spec_MapGenericAccess access mapping =
     (case mapping of
        None \<Rightarrow> access
      | Some m \<Rightarrow> mapped_specific_bits m access OR (access AND NOT (cleared_generic_bits m access)))"

definition all_generic_bits :: u32 where
  "all_generic_bits =
     AccessMaskGenericRead OR AccessMaskGenericWrite OR AccessMaskGenericExecute OR
     AccessMaskGenericAll"

subsection \<open>SIDs that render, and the ACEs that apply to a token\<close>

text \<open>
  \<open>SID.String\<close> returns for a SID whose sub-authority slice is as long as its count
  says (the invariant of the data model), and for one whose authority is too short.
\<close>

definition SID_renders :: "SID \<Rightarrow> bool" where
  "SID_renders s = (case SID_String s of Inr str \<Rightarrow> True | Inl p \<Rightarrow> False)"

definition token_renders :: "TokenUser \<Rightarrow> bool" where
  "token_renders token = (SID_renders (UserSID token) \<and> list_all SID_renders (Groups token))"

definition ace_renders :: "ACE \<Rightarrow> bool" where
  "ace_renders ace =
     (case ObjectAce ace of
        NilAce \<Rightarrow> True
      | Basic oa \<Rightarrow> SID_renders (SecurityIdentifier oa)
      | Advanced oa \<Rightarrow> SID_renders (adv_SecurityIdentifier oa))"

definition descriptor_renders :: "NtSecurityDescriptor \<Rightarrow> bool" where
  "descriptor_renders sd =
     (SID_renders (Owner sd) \<and> list_all ace_renders (Aces (DACL sd)))"

definition ace_applies :: "ACE \<Rightarrow> TokenUser \<Rightarrow> AccessCheckOptions \<Rightarrow> bool" where
  "ace_applies ace token options =
     (case aceAppliesToToken ace token options of
        Inr (applies, reason) \<Rightarrow> applies
      | Inl p \<Rightarrow> False)"

text \<open>
  The union of the mapped masks of the ACEs of header type \<open>ty\<close> that apply to the
  token.
\<close>

fun applicable_mask :: "TokenUser \<Rightarrow> AccessCheckOptions \<Rightarrow> AceType \<Rightarrow> ACE list \<Rightarrow> u32" where
  "applicable_mask token options ty [] = 0"
| "applicable_mask token options ty (ace # rest) =
     (if Type (Header ace) = ty \<and> ace_applies ace token options
      then MapGenericAccess (Raw (AccessMask ace)) (GenericMapping options)
      else 0) OR applicable_mask token options ty rest"

text \<open>Whether the integrity policy, when enabled, denies the mapped request.\<close>

definition integrity_denies :: "AccessCheckOptions \<Rightarrow> u32 \<Rightarrow> bool" where
  "integrity_denies options mappedAccess =
     (CheckIntegrity options \<and>
      \<not> CheckAccess (SubjectIntegrity options) (ObjectIntegrity options)
          (IntegrityPolicy options) mappedAccess)"

text \<open>Whether the owner's implicit rights decide the request.\<close>

definition owner_decides :: "NtSecurityDescriptor \<Rightarrow> TokenUser \<Rightarrow> u32 \<Rightarrow> bool" where
  "owner_decides sd token mappedAccess =
     (SID_String (UserSID token) = SID_String (Owner sd) \<and>
      mappedAccess AND NOT (AccessMaskReadControl OR AccessMaskWriteDACL) = 0)"

text \<open>Whether \<open>aceAppliesToToken\<close> returns, rather than panics, on an ACE.\<close>

definition applies_returns :: "ACE \<Rightarrow> TokenUser \<Rightarrow> AccessCheckOptions \<Rightarrow> bool" where
  "applies_returns ace token options =
     (case aceAppliesToToken ace token options of Inr x \<Rightarrow> True | Inl p \<Rightarrow> False)"

text \<open>
  The request after the generic-rights mapping, and the rights that the applicable
  access-allowed and access-denied ACEs of the DACL carry, for the options of a call.
\<close>

definition mapped_request :: "u32 \<Rightarrow> AccessCheckOptions option \<Rightarrow> u32" where
  "mapped_request desiredAccess options_ptr =
     MapGenericAccess desiredAccess (GenericMapping (options_or_default options_ptr))"

definition allowed_by_aces ::
  "NtSecurityDescriptor \<Rightarrow> TokenUser \<Rightarrow> AccessCheckOptions option \<Rightarrow> u32" where
  "allowed_by_aces sd token options_ptr =
     applicable_mask token (options_or_default options_ptr) AceTypeAccessAllowed
       (Aces (DACL sd))"

definition denied_by_aces ::
  "NtSecurityDescriptor \<Rightarrow> TokenUser \<Rightarrow> AccessCheckOptions option \<Rightarrow> u32" where
  "denied_by_aces sd token options_ptr =
     applicable_mask token (options_or_default options_ptr) AceTypeAccessDenied
       (Aces (DACL sd))"

text \<open>
  The ACEs decide a call when the integrity policy does not refuse it, the DACL is not
  empty and the owner's implicit rights do not settle it.
\<close>

definition aces_decide ::
  "NtSecurityDescriptor \<Rightarrow> TokenUser \<Rightarrow> u32 \<Rightarrow> AccessCheckOptions option \<Rightarrow> bool" where
  "aces_decide sd token desiredAccess options_ptr =
     (\<not> integrity_denies (options_or_default options_ptr)
          (mapped_request desiredAccess options_ptr) \<and>
      Aces (DACL sd) \<noteq> [] \<and>
      \<not> owner_decides sd token (mapped_request desiredAccess options_ptr))"

subsection \<open>Decoding a run of ACEs\<close>

text \<open>
  The first \<open>n\<close> ACEs of a buffer, decoded one after the other, with the buffer left;
  \<open>None\<close> when one of them fails to decode.
\<close>

fun decode_aces :: "nat \<Rightarrow> buffer \<Rightarrow> (ACE list \<times> buffer) option" where
  "decode_aces 0 buf = Some ([], buf)"
| "decode_aces (Suc n) buf =
     (case NewAce buf of
        ((ace, Some err), buf') \<Rightarrow> None
      | ((ace, None), buf') \<Rightarrow>
          (case decode_aces n buf' of
             None \<Rightarrow> None
           | Some (aces, buf'') \<Rightarrow> Some (ace # aces, buf'')))"

section \<open>Evaluation of the constants\<close>

lemmas AccessMask_defs =
  AccessMaskGenericRead_def AccessMaskGenericWrite_def AccessMaskGenericExecute_def
  AccessMaskGenericAll_def AccessMaskSynchronize_def AccessMaskWriteOwner_def
  AccessMaskWriteDACL_def AccessMaskReadControl_def AccessMaskDelete_def

lemmas AceType_defs =
  AceTypeAccessAllowed_def AceTypeAccessDenied_def AceTypeSystemAudit_def
  AceTypeSystemAlarm_def AceTypeAccessAllowedCompound_def AceTypeAccessAllowedObject_def
  AceTypeAccessDeniedObject_def AceTypeSystemAuditObject_def AceTypeSystemAlarmObject_def
  AceTypeAccessAllowedCallback_def AceTypeAccessDeniedCallback_def
  AceTypeAccessAllowedCallbackObject_def AceTypeAccessDeniedCallbackObject_def
  AceTypeSystemAuditCallback_def AceTypeSystemAlarmCallback_def
  AceTypeSystemAuditCallbackObject_def AceTypeSystemAlarmCallbackObject_def

section \<open>The integrity-level policy\<close>

text \<open>
  Claim C5.  A subject whose integrity level is at least the object's is always allowed.
  A lower subject is refused exactly when an enabled clause of the policy meets the requested
  rights: no-write-up with GENERIC_WRITE, WRITE_DAC or WRITE_OWNER; no-read-up with
  GENERIC_READ or READ_CONTROL; no-execute-up with GENERIC_EXECUTE.  When no enabled clause
  matches, it is allowed.
\<close>

theorem CheckAccess_policy:
  "(objectLevel \<le> il \<longrightarrow> CheckAccess il objectLevel policy rights) \<and>
   (\<not> objectLevel \<le> il \<longrightarrow>
      (\<not> CheckAccess il objectLevel policy rights) =
        ((policy AND PolicyNoWriteUp \<noteq> 0 \<and>
          rights AND (AccessMaskGenericWrite OR AccessMaskWriteDACL OR AccessMaskWriteOwner) \<noteq> 0) \<or>
         (policy AND PolicyNoReadUp \<noteq> 0 \<and>
          rights AND (AccessMaskGenericRead OR AccessMaskReadControl) \<noteq> 0) \<or>
         (policy AND PolicyNoExecuteUp \<noteq> 0 \<and> rights AND AccessMaskGenericExecute \<noteq> 0)))"
  by (simp add: CheckAccess_def)

theorem CheckAccess_policy_witness:
  "CheckAccess IntegrityLevelHigh IntegrityLevelLow
     (PolicyNoWriteUp OR PolicyNoReadUp OR PolicyNoExecuteUp) AccessMaskGenericWrite \<and>
   \<not> CheckAccess IntegrityLevelLow IntegrityLevelHigh PolicyNoWriteUp AccessMaskGenericWrite \<and>
   CheckAccess IntegrityLevelLow IntegrityLevelHigh PolicyNoWriteUp AccessMaskGenericRead"
  using CheckAccess_policy [of IntegrityLevelLow IntegrityLevelHigh
          "PolicyNoWriteUp OR PolicyNoReadUp OR PolicyNoExecuteUp" AccessMaskGenericWrite]
        CheckAccess_policy [of IntegrityLevelHigh IntegrityLevelLow PolicyNoWriteUp
          AccessMaskGenericWrite]
        CheckAccess_policy [of IntegrityLevelHigh IntegrityLevelLow PolicyNoWriteUp
          AccessMaskGenericRead]
  by (simp add: IntegrityLevelHigh_def IntegrityLevelLow_def PolicyNoWriteUp_def
        PolicyNoReadUp_def PolicyNoExecuteUp_def AccessMaskGenericWrite_def
        AccessMaskGenericRead_def AccessMaskWriteDACL_def AccessMaskWriteOwner_def
        AccessMaskReadControl_def AccessMaskGenericExecute_def)

section \<open>The canonical string of a SID\<close>

lemma String_subs_ok:
  "i + k \<le> length subs \<Longrightarrow>
   String_subs subs i k sb =
     Inr (sb @ concat (map (\<lambda>x. ''-'' @ fmt_nat (unat x)) (take k (drop i subs))))"
proof (induction k arbitrary: i sb)
  case 0
  then show ?case by simp
next
  case (Suc k)
  then have i: "i < length subs" by simp
  have "take (Suc k) (drop i subs) = subs ! i # take k (drop (Suc i) subs)"
    using i by (simp flip: Cons_nth_drop_Suc)
  then show ?case
    using Suc i by simp
qed

lemma String_subs_nonempty: "String_subs subs i k sb = Inr str \<Longrightarrow> sb \<noteq> [] \<Longrightarrow> str \<noteq> []"
  by (induction k arbitrary: i sb) (auto split: if_splits)

text \<open>
  Claim C8, as amended.  \<open>SID.String\<close> returns the empty string exactly when the
  authority has fewer than 6 bytes.  With at least 6 authority bytes and a sub-authority
  slice that holds \<open>NumAuthorities\<close> entries, it returns
  \<open>S-<revision>-<Authority[5]>-<sub1>-...-<subN>\<close> with exactly \<open>NumAuthorities\<close>
  sub-authority components.
\<close>

theorem SID_String_guard:
  "(SID_String s = Inr []) = (length (Authority s) < 6) \<and>
   (6 \<le> length (Authority s) \<and> unat (NumAuthorities s) \<le> length (SubAuthorities s) \<longrightarrow>
      SID_String s =
        Inr (''S-'' @ fmt_nat (unat (Revision s)) @ ''-'' @ fmt_nat (unat (Authority s ! 5)) @
             concat (map (\<lambda>x. ''-'' @ fmt_nat (unat x))
                         (take (unat (NumAuthorities s)) (SubAuthorities s)))) \<and>
      length (take (unat (NumAuthorities s)) (SubAuthorities s)) = unat (NumAuthorities s))"
proof -
  have "SID_String s \<noteq> Inr []" if "\<not> length (Authority s) < 6"
  proof
    assume "SID_String s = Inr []"
    then have "String_subs (SubAuthorities s) 0 (unat (NumAuthorities s))
        (''S-'' @ fmt_nat (unat (Revision s)) @ ''-'' @ fmt_nat (unat (Authority s ! 5))) = Inr []"
      using that by (simp add: SID_String_def)
    from String_subs_nonempty [OF this] show False by simp
  qed
  moreover have "SID_String s = Inr []" if "length (Authority s) < 6"
    using that by (simp add: SID_String_def)
  ultimately show ?thesis
    by (auto simp: SID_String_def String_subs_ok)
qed

theorem SID_String_guard_witness:
  "SID_String \<lparr>Revision = 1, NumAuthorities = 1, Authority = [0, 0, 0, 0, 0, 5],
               SubAuthorities = [18]\<rparr> = Inr ''S-1-5-18'' \<and>
   SID_String \<lparr>Revision = 1, NumAuthorities = 1, Authority = [0, 0, 0, 0, 5],
               SubAuthorities = [18]\<rparr> = Inr []"
  using SID_String_guard [of "\<lparr>Revision = 1, NumAuthorities = 1, Authority = [0, 0, 0, 0, 0, 5],
               SubAuthorities = [18]\<rparr>"]
   SID_String_guard [of "\<lparr>Revision = 1, NumAuthorities = 1, Authority = [0, 0, 0, 0, 5],
               SubAuthorities = [18]\<rparr>"]
  by (simp add: fmt_nat.simps digit_char_def)

text \<open>
  The claim as first stated fails for an authority longer than 6 bytes: the guard tests
  \<open>len(s.Authority) < 6\<close>, so a SID with 7 authority bytes is rendered, not refused.
\<close>

theorem SID_String_long_authority_counterexample:
  "length (Authority \<lparr>Revision = 1, NumAuthorities = 1, Authority = [0, 0, 0, 0, 0, 5, 0],
                      SubAuthorities = [18]\<rparr>) \<noteq> 6 \<and>
   SID_String \<lparr>Revision = 1, NumAuthorities = 1, Authority = [0, 0, 0, 0, 0, 5, 0],
               SubAuthorities = [18]\<rparr> = Inr ''S-1-5-18''"
  by (simp add: SID_String_def fmt_nat.simps digit_char_def)

section \<open>Decoding an ACL\<close>

lemma decode_aces_length: "decode_aces n buf = Some (aces, buf') \<Longrightarrow> length aces = n"
  by (induction n arbitrary: buf aces buf')
     (auto split: prod.splits option.splits)

lemma NewACL_loop_success:
  "decode_aces k buf = Some (aces, buf') \<Longrightarrow>
   NewACL_loop i k acl buf = ((acl\<lparr>Aces := Aces acl @ aces\<rparr>, None), buf')"
  by (induction k arbitrary: i acl buf aces)
     (auto split: prod.splits option.splits)

lemma NewACL_loop_failure:
  "decode_aces k buf = None \<Longrightarrow>
   \<exists>j aces b ace e b'. j < k \<and> decode_aces j buf = Some (aces, b) \<and>
      NewAce b = ((ace, Some e), b') \<and>
      NewACL_loop i k acl buf =
        ((acl\<lparr>Aces := Aces acl @ aces\<rparr>, Some (Wrapf (''reading ACE '' @ fmt_nat (i + j)) e)), b')"
proof (induction k arbitrary: i acl buf)
  case 0
  then show ?case by simp
next
  case (Suc k)
  obtain ace eo b1 where na: "NewAce buf = ((ace, eo), b1)"
    by (metis surj_pair)
  show ?case
  proof (cases eo)
    case (Some e)
    have "decode_aces 0 buf = Some ([], buf)" by simp
    moreover have "NewACL_loop i (Suc k) acl buf =
        ((acl\<lparr>Aces := Aces acl @ []\<rparr>, Some (Wrapf (''reading ACE '' @ fmt_nat (i + 0)) e)), b1)"
      using na Some by simp
    ultimately show ?thesis
      using na Some by blast
  next
    case None
    with Suc.prems na have "decode_aces k b1 = None"
      by (auto split: option.splits)
    from Suc.IH [OF this, of "Suc i" "acl\<lparr>Aces := Aces acl @ [ace]\<rparr>"]
    obtain j aces b ace' e b' where j: "j < k" "decode_aces j b1 = Some (aces, b)"
      "NewAce b = ((ace', Some e), b')"
      "NewACL_loop (Suc i) k (acl\<lparr>Aces := Aces acl @ [ace]\<rparr>) b1 =
        ((acl\<lparr>Aces := Aces acl @ [ace]\<rparr>\<lparr>Aces := Aces (acl\<lparr>Aces := Aces acl @ [ace]\<rparr>) @ aces\<rparr>,
          Some (Wrapf (''reading ACE '' @ fmt_nat (Suc i + j)) e)), b')"
      by blast
    have "Suc j < Suc k" using j(1) by simp
    moreover have "decode_aces (Suc j) buf = Some (ace # aces, b)"
      using na None j(2) by simp
    moreover have "NewACL_loop i (Suc k) acl buf =
        ((acl\<lparr>Aces := Aces acl @ (ace # aces)\<rparr>,
          Some (Wrapf (''reading ACE '' @ fmt_nat (i + Suc j)) e)), b')"
      using na None j(4) by simp
    ultimately show ?thesis
      using j(3) by blast
  qed
qed

text \<open>
  Claim C9, as amended.  After the 8-byte header, \<open>NewACL\<close> decodes \<open>AceCount\<close> ACE
  records in order.  Either all of them decode, and the ACL returned holds exactly
  \<open>AceCount\<close> ACEs with a nil error; or there is a first index \<open>i\<close> whose ACE fails to
  decode, and the error returned wraps that ACE's error under the text
  \<open>reading ACE i\<close>, while the ACL value returned beside it still holds the header and the
  \<open>i\<close> ACEs decoded before the failure.
\<close>

theorem NewACL_fail_fast:
  assumes "NewACLHeader buf = ((h, None), buf0)"
  shows "(\<exists>aces b. decode_aces (unat (AceCount h)) buf0 = Some (aces, b) \<and>
            NewACL buf = ((\<lparr>acl_Header = h, Aces = aces\<rparr>, None), b) \<and>
            length aces = unat (AceCount h)) \<or>
         (\<exists>i aces b ace e b'. i < unat (AceCount h) \<and>
            decode_aces i buf0 = Some (aces, b) \<and> length aces = i \<and>
            NewAce b = ((ace, Some e), b') \<and>
            NewACL buf =
              ((\<lparr>acl_Header = h, Aces = aces\<rparr>,
                Some (Wrapf (''reading ACE '' @ fmt_nat i) e)), b'))"
proof (cases "decode_aces (unat (AceCount h)) buf0")
  case None
  from NewACL_loop_failure [OF this, of 0 "zero_ACL\<lparr>acl_Header := h, Aces := []\<rparr>"]
  obtain j aces b ace e b' where j: "j < unat (AceCount h)"
    "decode_aces j buf0 = Some (aces, b)" "NewAce b = ((ace, Some e), b')"
    "NewACL_loop 0 (unat (AceCount h)) (zero_ACL\<lparr>acl_Header := h, Aces := []\<rparr>) buf0 =
       (((zero_ACL\<lparr>acl_Header := h, Aces := []\<rparr>)
           \<lparr>Aces := Aces (zero_ACL\<lparr>acl_Header := h, Aces := []\<rparr>) @ aces\<rparr>,
         Some (Wrapf (''reading ACE '' @ fmt_nat (0 + j)) e)), b')"
    by blast
  have "NewACL buf =
      ((\<lparr>acl_Header = h, Aces = aces\<rparr>, Some (Wrapf (''reading ACE '' @ fmt_nat j) e)), b')"
    using assms j(4) by (simp add: NewACL_def zero_ACL_def)
  moreover have "length aces = j"
    using j(2) by (rule decode_aces_length)
  ultimately show ?thesis
    using j(1,2,3) by blast
next
  case (Some r)
  obtain aces b where r: "r = (aces, b)" by (cases r)
  have "NewACL buf = ((\<lparr>acl_Header = h, Aces = aces\<rparr>, None), b)"
    using assms NewACL_loop_success [of "unat (AceCount h)" buf0 aces b 0
        "zero_ACL\<lparr>acl_Header := h, Aces := []\<rparr>"] Some r
    by (simp add: NewACL_def zero_ACL_def)
  moreover have "length aces = unat (AceCount h)"
    using Some r decode_aces_length by blast
  ultimately show ?thesis
    using Some r by blast
qed

theorem NewACL_fail_fast_witness:
  "NewACLHeader [2, 0, 28, 0, 2, 0, 0, 0,
                 0, 0, 20, 0, 0, 0, 0, 0x80, 1, 1, 0, 0, 0, 0, 0, 1, 0, 0, 0, 0] =
     ((\<lparr>acl_Revision = 2, acl_Sbz1 = 0, acl_Size = 28, AceCount = 2, acl_Sbz2 = 0\<rparr>, None),
      [0, 0, 20, 0, 0, 0, 0, 0x80, 1, 1, 0, 0, 0, 0, 0, 1, 0, 0, 0, 0]) \<and>
   ((\<exists>aces b. decode_aces (unat (2 :: u16))
                 [0, 0, 20, 0, 0, 0, 0, 0x80, 1, 1, 0, 0, 0, 0, 0, 1, 0, 0, 0, 0] =
                 Some (aces, b) \<and>
               NewACL [2, 0, 28, 0, 2, 0, 0, 0,
                       0, 0, 20, 0, 0, 0, 0, 0x80, 1, 1, 0, 0, 0, 0, 0, 1, 0, 0, 0, 0] =
                 ((\<lparr>acl_Header = \<lparr>acl_Revision = 2, acl_Sbz1 = 0, acl_Size = 28, AceCount = 2,
                                  acl_Sbz2 = 0\<rparr>, Aces = aces\<rparr>, None), b) \<and>
               length aces = unat (2 :: u16)) \<or>
    (\<exists>i aces b ace e b'. i < unat (2 :: u16) \<and>
       decode_aces i [0, 0, 20, 0, 0, 0, 0, 0x80, 1, 1, 0, 0, 0, 0, 0, 1, 0, 0, 0, 0] =
         Some (aces, b) \<and> length aces = i \<and>
       NewAce b = ((ace, Some e), b') \<and>
       NewACL [2, 0, 28, 0, 2, 0, 0, 0,
               0, 0, 20, 0, 0, 0, 0, 0x80, 1, 1, 0, 0, 0, 0, 0, 1, 0, 0, 0, 0] =
         ((\<lparr>acl_Header = \<lparr>acl_Revision = 2, acl_Sbz1 = 0, acl_Size = 28, AceCount = 2,
                          acl_Sbz2 = 0\<rparr>, Aces = aces\<rparr>,
           Some (Wrapf (''reading ACE '' @ fmt_nat i) e)), b')))"
proof -
  have h: "NewACLHeader [2, 0, 28, 0, 2, 0, 0, 0,
                 0, 0, 20, 0, 0, 0, 0, 0x80, 1, 1, 0, 0, 0, 0, 0, 1, 0, 0, 0, 0] =
     ((\<lparr>acl_Revision = 2, acl_Sbz1 = 0, acl_Size = 28, AceCount = 2, acl_Sbz2 = 0\<rparr>, None),
      [0, 0, 20, 0, 0, 0, 0, 0x80, 1, 1, 0, 0, 0, 0, 0, 1, 0, 0, 0, 0])"
    by (simp add: NewACLHeader_def read_bytes_def le16_def)
  show ?thesis
    using h NewACL_fail_fast [OF h] by simp
qed

text \<open>
  The claim as first stated says the ACEs decoded before a failure are discarded.  On a
  buffer that declares two ACEs and holds one, \<open>NewACL\<close> returns the error for index 1
  together with an ACL that holds the first ACE.
\<close>

theorem NewACL_partial_aces_counterexample:
  "NewACL [2, 0, 28, 0, 2, 0, 0, 0,
           0, 0, 20, 0, 0, 0, 0, 0x80, 1, 1, 0, 0, 0, 0, 0, 1, 0, 0, 0, 0] =
     ((\<lparr>acl_Header = \<lparr>acl_Revision = 2, acl_Sbz1 = 0, acl_Size = 28, AceCount = 2,
                      acl_Sbz2 = 0\<rparr>,
        Aces = [\<lparr>Header = \<lparr>Type = 0, Flags = 0, Size = 20\<rparr>,
                 AccessMask = \<lparr>Value = 0x80000000\<rparr>,
                 ObjectAce = Basic \<lparr>SecurityIdentifier =
                   \<lparr>Revision = 1, NumAuthorities = 1, Authority = [0, 0, 0, 0, 0, 1],
                    SubAuthorities = [0]\<rparr>\<rparr>\<rparr>]\<rparr>,
       Some (Wrapf ''reading ACE 1''
              (Wrapf ''reading ACE header'' (Wrapf ''reading ACE header'' EOF)))), [])"
  by code_simp

section \<open>Decoding a security descriptor\<close>

text \<open>
  Claim C10.  When the header's \<open>OffsetGroup\<close> equals \<open>OffsetOwner\<close> and the decoded
  DACL holds no ACE, \<open>NewNtSecurityDescriptor\<close> succeeds with a nil error and leaves owner
  and group as zero-valued SIDs, whose canonical string is empty.
\<close>

theorem NewNtSecurityDescriptor_degenerate_empty:
  assumes "NewNTSDHeader ntsdBytes = ((h, None), buf1)"
      and "OffsetGroup h = OffsetOwner h"
      and "NewACL buf1 = ((dacl, None), buf2)"
      and "Aces dacl = []"
  shows "\<exists>ntsd. NewNtSecurityDescriptor ntsdBytes = Inr (ntsd, None) \<and>
           sd_Header ntsd = h \<and> DACL ntsd = dacl \<and>
           Owner ntsd = zero_SID \<and> Group ntsd = zero_SID \<and>
           SID_String (Owner ntsd) = Inr [] \<and> SID_String (Group ntsd) = Inr []"
  using assms
  by (simp add: NewNtSecurityDescriptor_def zero_NtSecurityDescriptor_def SID_String_def
        zero_SID_def)

theorem NewNtSecurityDescriptor_degenerate_empty_witness:
  "\<exists>ntsd. NewNtSecurityDescriptor
            [1, 0, 4, 0x80, 20, 0, 0, 0, 20, 0, 0, 0, 0, 0, 0, 0, 20, 0, 0, 0,
             2, 0, 8, 0, 0, 0, 0, 0] = Inr (ntsd, None) \<and>
          Owner ntsd = zero_SID \<and> Group ntsd = zero_SID \<and>
          SID_String (Owner ntsd) = Inr [] \<and> SID_String (Group ntsd) = Inr []"
proof -
  have h: "NewNTSDHeader [1, 0, 4, 0x80, 20, 0, 0, 0, 20, 0, 0, 0, 0, 0, 0, 0, 20, 0, 0, 0,
             2, 0, 8, 0, 0, 0, 0, 0] =
     ((\<lparr>sd_Revision = 1, sd_Sbz1 = 0, Control = 0x8004, OffsetOwner = 20, OffsetGroup = 20,
        OffsetSacl = 0, OffsetDacl = 20\<rparr>, None), [2, 0, 8, 0, 0, 0, 0, 0])"
    by (simp add: NewNTSDHeader_def read_bytes_def le16_def le32_def)
  have a: "NewACL [2, 0, 8, 0, 0, 0, 0, 0] =
     ((\<lparr>acl_Header = \<lparr>acl_Revision = 2, acl_Sbz1 = 0, acl_Size = 8, AceCount = 0,
                      acl_Sbz2 = 0\<rparr>, Aces = []\<rparr>, None), [])"
    by (simp add: NewACL_def NewACLHeader_def read_bytes_def le16_def zero_ACL_def)
  show ?thesis
    using NewNtSecurityDescriptor_degenerate_empty [OF h _ a] by auto
qed

section \<open>The generic-rights mapping\<close>

lemma and_not_disjoint:
  fixes a :: u32
  assumes "g1 AND g2 = 0"
  shows "(a AND NOT g1) AND g2 = a AND g2"
proof (rule bit_word_eqI)
  fix n
  assume n: "n < LENGTH(32)"
  have "\<not> bit (g1 AND g2) n" using assms by simp
  then show "bit ((a AND NOT g1) AND g2) n = bit (a AND g2) n"
    using n by (auto simp: bit_and_iff bit_not_iff)
qed

lemma generic_disjoint:
  "AccessMaskGenericRead AND AccessMaskGenericWrite = 0"
  "AccessMaskGenericRead AND AccessMaskGenericExecute = 0"
  "AccessMaskGenericRead AND AccessMaskGenericAll = 0"
  "AccessMaskGenericWrite AND AccessMaskGenericExecute = 0"
  "AccessMaskGenericWrite AND AccessMaskGenericAll = 0"
  "AccessMaskGenericExecute AND AccessMaskGenericAll = 0"
  by (simp_all add: AccessMask_defs)

lemma result_or_zero: "(r OR a = 0 \<and> a \<noteq> 0) = False" for r a :: u32
  by (auto simp: or_eq_0_iff)

lemma MapGenericAccess_Some:
  "MapGenericAccess access (Some m) = spec_MapGenericAccess access (Some m)"
  unfolding MapGenericAccess_def spec_MapGenericAccess_def genericRights_def
    generic_contrib_def generic_cleared_def mapped_specific_bits_def cleared_generic_bits_def
  apply (simp add: and_not_disjoint generic_disjoint Let_def result_or_zero split: option.splits)
  apply (simp add: ac_simps)
  done

lemma single_bit: "a AND 2 ^ n \<noteq> 0 \<Longrightarrow> a AND 2 ^ n = (2 ^ n :: u32)"
proof -
  assume "a AND 2 ^ n \<noteq> 0"
  then have "bit a n" by (simp add: and_exp_eq_0_iff_not_bit)
  then show ?thesis
    by (intro bit_word_eqI) (auto simp: bit_and_iff bit_exp_iff)
qed

lemma generic_single_bit:
  "g \<in> set genericRights \<Longrightarrow> a AND g \<noteq> 0 \<Longrightarrow> a AND g = g"
  using single_bit [of a 31] single_bit [of a 30] single_bit [of a 29] single_bit [of a 28]
  by (auto simp: genericRights_def AccessMask_defs)

lemma bit_sub:
  assumes "k AND NOT g = (0::u32)" "bit k n"
  shows "bit g n"
proof -
  have "\<not> bit (k AND NOT g) n" using assms(1) by simp
  moreover have "n < LENGTH(32)" using assms(2) by (rule bit_imp_le_length)
  ultimately show ?thesis using assms(2) by (simp add: bit_and_iff bit_not_iff)
qed

lemma bit_disj:
  assumes "k AND g = (0::u32)" "bit g n"
  shows "\<not> bit k n"
proof -
  have "\<not> bit (k AND g) n" using assms(1) by simp
  then show ?thesis using assms(2) by (simp add: bit_and_iff)
qed

lemma or_includes:
  "s AND NOT ((s OR b OR c OR d) OR e) = (0::u32)"
  "s AND NOT ((a OR s OR c OR d) OR e) = (0::u32)"
  "s AND NOT ((a OR b OR s OR d) OR e) = (0::u32)"
  "s AND NOT ((a OR b OR c OR s) OR e) = (0::u32)"
  by (intro bit_word_eqI; auto simp: bit_and_iff bit_or_iff bit_not_iff)+

lemma mapped_entry_included:
  assumes "g \<in> set genericRights" "access AND g \<noteq> 0" "m g = Some s"
  shows "s AND NOT (MapGenericAccess access (Some m)) = 0"
proof -
  have c: "generic_contrib m access g = s"
    using assms by (simp add: generic_contrib_def)
  from assms(1) consider "g = AccessMaskGenericRead" | "g = AccessMaskGenericWrite"
    | "g = AccessMaskGenericExecute" | "g = AccessMaskGenericAll"
    by (auto simp: genericRights_def)
  then show ?thesis
    using c
    by cases (simp_all only: MapGenericAccess_Some spec_MapGenericAccess_def
                mapped_specific_bits_def option.case or_includes)
qed

lemma kept_bits:
  fixes g :: u32
  assumes "a AND g = g" "k1 AND g = 0" "k2 AND g = 0" "k3 AND g = 0" "k4 AND g = 0"
  shows "(c OR (a AND NOT (k1 OR k2 OR k3 OR k4))) AND g = g"
proof (rule bit_word_eqI)
  fix n
  assume n: "n < LENGTH(32)"
  have "bit g n \<Longrightarrow> bit a n" using assms(1) by (metis bit_and_iff)
  moreover have "bit g n \<Longrightarrow> \<not> bit k1 n" using assms(2) by (rule bit_disj)
  moreover have "bit g n \<Longrightarrow> \<not> bit k2 n" using assms(3) by (rule bit_disj)
  moreover have "bit g n \<Longrightarrow> \<not> bit k3 n" using assms(4) by (rule bit_disj)
  moreover have "bit g n \<Longrightarrow> \<not> bit k4 n" using assms(5) by (rule bit_disj)
  ultimately show "bit ((c OR (a AND NOT (k1 OR k2 OR k3 OR k4))) AND g) n = bit g n"
    using n by (auto simp: bit_and_iff bit_or_iff bit_not_iff)
qed

lemma generic_cleared_other:
  "h \<in> set genericRights \<Longrightarrow> g \<in> set genericRights \<Longrightarrow> h \<noteq> g \<Longrightarrow>
   generic_cleared m access h AND g = 0"
  using generic_disjoint
  by (auto simp: generic_cleared_def genericRights_def and.commute)

lemma unmapped_generic_kept:
  assumes "g \<in> set genericRights" "access AND g \<noteq> 0" "m g = None"
  shows "MapGenericAccess access (Some m) AND g = g"
proof -
  have k: "generic_cleared m access g AND g = 0"
    using assms by (simp add: generic_cleared_def)
  have a: "access AND g = g"
    using assms generic_single_bit by blast
  have d: "\<And>h. h \<in> set genericRights \<Longrightarrow> generic_cleared m access h AND g = 0"
    using assms(1) generic_cleared_other k by blast
  show ?thesis
    unfolding MapGenericAccess_Some spec_MapGenericAccess_def cleared_generic_bits_def option.case
    by (rule kept_bits [OF a]) (simp_all add: d genericRights_def)
qed

lemma nongeneric_bits:
  fixes a :: u32
  assumes "k1 AND NOT g1 = 0" "k2 AND NOT g2 = 0" "k3 AND NOT g3 = 0" "k4 AND NOT g4 = 0"
  shows "(a AND NOT (g1 OR g2 OR g3 OR g4)) AND NOT (c OR (a AND NOT (k1 OR k2 OR k3 OR k4))) = 0"
proof (rule bit_word_eqI)
  fix n
  assume n: "n < LENGTH(32)"
  have "bit k1 n \<Longrightarrow> bit g1 n" using assms(1) by (rule bit_sub)
  moreover have "bit k2 n \<Longrightarrow> bit g2 n" using assms(2) by (rule bit_sub)
  moreover have "bit k3 n \<Longrightarrow> bit g3 n" using assms(3) by (rule bit_sub)
  moreover have "bit k4 n \<Longrightarrow> bit g4 n" using assms(4) by (rule bit_sub)
  ultimately show "bit ((a AND NOT (g1 OR g2 OR g3 OR g4)) AND
                        NOT (c OR (a AND NOT (k1 OR k2 OR k3 OR k4)))) n = bit (0::u32) n"
    using n by (auto simp: bit_and_iff bit_or_iff bit_not_iff)
qed

lemma generic_cleared_sub: "generic_cleared m access g AND NOT g = 0"
  by (simp add: generic_cleared_def)

lemma nongeneric_preserved:
  "(access AND NOT all_generic_bits) AND NOT (MapGenericAccess access (Some m)) = 0"
  unfolding MapGenericAccess_Some spec_MapGenericAccess_def option.case all_generic_bits_def
    cleared_generic_bits_def
  by (rule nongeneric_bits) (rule generic_cleared_sub)+

text \<open>
  Claim C6.  A nil mapping makes \<open>MapGenericAccess\<close> the identity.  With a table, the
  result is the union of the entries of the generic bits present in the mask and of the mask
  with those generic bits cleared.  So the specific bits of every present and mapped generic
  bit are in the result, a present generic bit without an entry stays set, and every
  non-generic bit of the mask stays set.
\<close>

theorem MapGenericAccess_mapping:
  "MapGenericAccess access None = access \<and>
   MapGenericAccess access (Some m) =
     mapped_specific_bits m access OR (access AND NOT (cleared_generic_bits m access)) \<and>
   (\<forall>g \<in> set genericRights. access AND g \<noteq> 0 \<longrightarrow>
      (case m g of
         Some s \<Rightarrow> s AND NOT (MapGenericAccess access (Some m)) = 0
       | None \<Rightarrow> MapGenericAccess access (Some m) AND g = g)) \<and>
   (access AND NOT all_generic_bits) AND NOT (MapGenericAccess access (Some m)) = 0"
proof -
  have "MapGenericAccess access None = access"
    by (simp add: MapGenericAccess_def)
  moreover have "MapGenericAccess access (Some m) =
      mapped_specific_bits m access OR (access AND NOT (cleared_generic_bits m access))"
    by (simp add: MapGenericAccess_Some spec_MapGenericAccess_def)
  moreover have "\<forall>g \<in> set genericRights. access AND g \<noteq> 0 \<longrightarrow>
      (case m g of
         Some s \<Rightarrow> s AND NOT (MapGenericAccess access (Some m)) = 0
       | None \<Rightarrow> MapGenericAccess access (Some m) AND g = g)"
    using mapped_entry_included unmapped_generic_kept
    by (auto split: option.splits)
  ultimately show ?thesis
    using nongeneric_preserved by blast
qed

theorem MapGenericAccess_mapping_witness:
  "AccessMaskGenericRead \<in> set genericRights \<and>
   (AccessMaskGenericRead OR AccessMaskGenericExecute OR AccessMaskDelete) AND
     AccessMaskGenericRead \<noteq> 0 \<and>
   MapGenericAccess (AccessMaskGenericRead OR AccessMaskGenericExecute OR AccessMaskDelete)
     (Some [AccessMaskGenericRead \<mapsto> AccessMaskReadControl,
            AccessMaskGenericWrite \<mapsto> AccessMaskWriteDACL]) =
     AccessMaskReadControl OR AccessMaskGenericExecute OR AccessMaskDelete"
proof -
  let ?a = "AccessMaskGenericRead OR AccessMaskGenericExecute OR AccessMaskDelete"
  let ?m = "[AccessMaskGenericRead \<mapsto> AccessMaskReadControl,
             AccessMaskGenericWrite \<mapsto> AccessMaskWriteDACL]"
  have e: "MapGenericAccess ?a (Some ?m) =
      mapped_specific_bits ?m ?a OR (?a AND NOT (cleared_generic_bits ?m ?a))"
    using MapGenericAccess_mapping [of ?a ?m] by (rule conjunct2 [THEN conjunct1])
  have s: "mapped_specific_bits ?m ?a = AccessMaskReadControl"
    by (simp add: mapped_specific_bits_def generic_contrib_def AccessMask_defs)
  have c: "cleared_generic_bits ?m ?a = AccessMaskGenericRead"
    by (simp add: cleared_generic_bits_def generic_cleared_def AccessMask_defs)
  show ?thesis
    unfolding e s c by (simp add: AccessMask_defs genericRights_def)
qed

section \<open>The access check: loops and paths\<close>

lemma add_detail_fields [simp]:
  "Granted (add_detail r s d b) = Granted r"
  "Reason (add_detail r s d b) = Reason r"
  "Ace (add_detail r s d b) = Ace r"
  "Access (add_detail r s d b) = Access r"
  "Details (add_detail r s d b) = Details r @ [\<lparr>Step = s, Description = d, Outcome = b\<rparr>]"
  by (simp_all add: add_detail_def)

lemma SID_renders_String: "SID_renders s \<Longrightarrow> \<exists>str. SID_String s = Inr str"
  by (cases "SID_String s") (auto simp: SID_renders_def)

lemma groups_match_total:
  "list_all SID_renders gs \<Longrightarrow> \<exists>b r. groups_match str gs = Inr (b, r)"
proof (induction gs)
  case Nil
  then show ?case by auto
next
  case (Cons g gs)
  then obtain gstr where "SID_String g = Inr gstr"
    using SID_renders_String by auto
  with Cons show ?case by auto
qed

lemma sid_applies_total:
  assumes "SID_renders s" "token_renders token"
  shows "\<exists>b r. sid_applies s token = Inr (b, r)"
proof -
  obtain str where s: "SID_String s = Inr str"
    using assms(1) SID_renders_String by blast
  obtain ustr where u: "SID_String (UserSID token) = Inr ustr"
    using assms(2) SID_renders_String by (auto simp: token_renders_def)
  obtain b r where "groups_match str (Groups token) = Inr (b, r)"
    using assms(2) groups_match_total [of "Groups token" str] by (auto simp: token_renders_def)
  then show ?thesis
    using s u by (auto simp: sid_applies_def)
qed

lemma aceAppliesToToken_total:
  assumes "ace_renders ace" "token_renders token"
  shows "\<exists>r. aceAppliesToToken ace token options = Inr (ace_applies ace token options, r)"
proof -
  have "\<exists>b r. aceAppliesToToken ace token options = Inr (b, r)"
    using assms sid_applies_total
    by (cases "ObjectAce ace") (auto simp: aceAppliesToToken_def ace_renders_def)
  then show ?thesis
    by (auto simp: ace_applies_def)
qed

lemma deny_step_bits:
  fixes d :: u32
  shows "(d OR (m AND mapped)) OR (mapped AND rest) = d OR (mapped AND (m OR rest))"
  by (rule bit_word_eqI) (auto simp: bit_and_iff bit_or_iff)

lemma deny_skip_bits:
  fixes d :: u32
  assumes "m AND mapped = 0"
  shows "d OR (mapped AND (m OR rest)) = d OR (mapped AND rest)"
proof (rule bit_word_eqI)
  fix n
  assume n: "n < LENGTH(32)"
  have "\<not> bit (m AND mapped) n" using assms by simp
  then show "bit (d OR (mapped AND (m OR rest))) n = bit (d OR (mapped AND rest)) n"
    by (auto simp: bit_and_iff bit_or_iff)
qed

lemma deny_hit_bits:
  fixes d :: u32
  assumes "d OR (m AND mapped) = mapped"
  shows "d OR (mapped AND (m OR rest)) = mapped"
proof (rule bit_word_eqI)
  fix n
  assume n: "n < LENGTH(32)"
  have "bit (d OR (m AND mapped)) n = bit mapped n" using assms by simp
  then show "bit (d OR (mapped AND (m OR rest))) n = bit mapped n"
    by (auto simp: bit_and_iff bit_or_iff)
qed

lemma deny_hit_nonzero:
  fixes m :: u32
  assumes "m AND mapped \<noteq> 0"
  shows "mapped AND (m OR rest) \<noteq> 0"
proof
  assume z: "mapped AND (m OR rest) = 0"
  have "m AND mapped = 0"
  proof (rule bit_word_eqI)
    fix n
    assume "n < LENGTH(32)"
    have "\<not> bit (mapped AND (m OR rest)) n" using z by simp
    then show "bit (m AND mapped) n = bit (0::u32) n"
      by (auto simp: bit_and_iff bit_or_iff)
  qed
  with assms show False by simp
qed

lemma deny_later_nonzero:
  fixes m :: u32
  assumes "mapped AND rest \<noteq> 0"
  shows "mapped AND (m OR rest) \<noteq> 0"
proof
  assume z: "mapped AND (m OR rest) = 0"
  have "mapped AND rest = 0"
  proof (rule bit_word_eqI)
    fix n
    assume "n < LENGTH(32)"
    have "\<not> bit (mapped AND (m OR rest)) n" using z by simp
    then show "bit (mapped AND rest) n = bit (0::u32) n"
      by (auto simp: bit_and_iff bit_or_iff)
  qed
  with assms show False by simp
qed

lemma applies_returns_Inr:
  "applies_returns ace token options \<Longrightarrow>
   \<exists>r. aceAppliesToToken ace token options = Inr (ace_applies ace token options, r)"
  by (cases "aceAppliesToToken ace token options")
     (auto simp: applies_returns_def ace_applies_def)

lemma renders_applies_returns:
  "ace_renders ace \<Longrightarrow> token_renders token \<Longrightarrow> applies_returns ace token options"
  using aceAppliesToToken_total [of ace token options]
  by (auto simp: applies_returns_def)

lemma deny_pass_total:
  assumes "list_all (\<lambda>ace. applies_returns ace token options) aces"
  shows "\<exists>x. deny_pass token options mapped i aces res d = Inr x"
  using assms
proof (induction aces arbitrary: i res d)
  case Nil
  then show ?case by simp
next
  case (Cons ace aces)
  then obtain r where r: "aceAppliesToToken ace token options = Inr (ace_applies ace token options, r)"
    using applies_returns_Inr [of ace token options] by auto
  from Cons have "list_all (\<lambda>ace. applies_returns ace token options) aces" by simp
  note IH = Cons.IH [OF this]
  show ?case
    using r IH by (simp add: Let_def)
qed

lemma deny_pass_Continue:
  assumes "deny_pass token options mapped i aces res d = Inr (Continue (res', d'))"
  shows "Granted res' = Granted res \<and> Access res' = Access res \<and>
         d' = d OR (mapped AND applicable_mask token options AceTypeAccessDenied aces)"
  using assms
proof (induction aces arbitrary: i res d)
  case Nil
  then show ?case by simp
next
  case (Cons ace aces)
  show ?case
  proof (cases "Type (Header ace) = AceTypeAccessDenied")
    case False
    with Cons show ?thesis by simp
  next
    case True
    from Cons.prems True obtain b r where r: "aceAppliesToToken ace token options = Inr (b, r)"
      by (cases "aceAppliesToToken ace token options") auto
    then have b: "ace_applies ace token options = b"
      by (simp add: ace_applies_def)
    let ?m = "MapGenericAccess (Raw (AccessMask ace)) (GenericMapping options)"
    show ?thesis
    proof (cases "b \<and> ?m AND mapped \<noteq> 0")
      case hit: True
      with Cons.prems True r
      have "\<exists>res2. deny_pass token options mapped (Suc i) aces res2 (d OR (?m AND mapped)) =
                Inr (Continue (res', d')) \<and> Granted res2 = Granted res \<and> Access res2 = Access res"
        by (auto simp: Let_def split: if_splits)
      then obtain res2 where
        "deny_pass token options mapped (Suc i) aces res2 (d OR (?m AND mapped)) =
           Inr (Continue (res', d'))" "Granted res2 = Granted res" "Access res2 = Access res"
        by blast
      from Cons.IH [OF this(1)] this(2,3) show ?thesis
        using True b hit by (simp add: deny_step_bits)
    next
      case miss: False
      with Cons.prems True r
      have "\<exists>res2. deny_pass token options mapped (Suc i) aces res2 d =
                Inr (Continue (res', d')) \<and> Granted res2 = Granted res \<and> Access res2 = Access res"
        by (auto simp: Let_def)
      then obtain res2 where
        "deny_pass token options mapped (Suc i) aces res2 d = Inr (Continue (res', d'))"
        "Granted res2 = Granted res" "Access res2 = Access res"
        by blast
      from Cons.IH [OF this(1)] this(2,3) show ?thesis
        using True b miss by (auto simp: deny_skip_bits)
    qed
  qed
qed

lemma deny_pass_Returned:
  assumes "deny_pass token options mapped i aces res d = Inr (Returned r)"
  shows "Granted r = Granted res \<and> Access r = Access res \<and>
         (\<exists>j. Reason r = ''Access explicitly denied by ACE '' @ fmt_nat j) \<and>
         d OR (mapped AND applicable_mask token options AceTypeAccessDenied aces) = mapped \<and>
         mapped AND applicable_mask token options AceTypeAccessDenied aces \<noteq> 0"
  using assms
proof (induction aces arbitrary: i res d)
  case Nil
  then show ?case by simp
next
  case (Cons ace aces)
  show ?case
  proof (cases "Type (Header ace) = AceTypeAccessDenied")
    case False
    with Cons show ?thesis by simp
  next
    case True
    from Cons.prems True obtain b rs where r: "aceAppliesToToken ace token options = Inr (b, rs)"
      by (cases "aceAppliesToToken ace token options") auto
    then have b: "ace_applies ace token options = b"
      by (simp add: ace_applies_def)
    let ?m = "MapGenericAccess (Raw (AccessMask ace)) (GenericMapping options)"
    show ?thesis
    proof (cases "b \<and> ?m AND mapped \<noteq> 0")
      case hit: True
      show ?thesis
      proof (cases "d OR (?m AND mapped) = mapped")
        case full: True
        with Cons.prems True r hit
        have "Granted r = Granted res \<and> Access r = Access res \<and>
              Reason r = ''Access explicitly denied by ACE '' @ fmt_nat i"
          by (auto simp: Let_def)
        then show ?thesis
          using True b hit full by (auto simp: deny_hit_bits deny_hit_nonzero)
      next
        case part: False
        with Cons.prems True r hit
        have "\<exists>res2. deny_pass token options mapped (Suc i) aces res2 (d OR (?m AND mapped)) =
                  Inr (Returned r) \<and> Granted res2 = Granted res \<and> Access res2 = Access res"
          by (auto simp: Let_def)
        then obtain res2 where
          "deny_pass token options mapped (Suc i) aces res2 (d OR (?m AND mapped)) =
             Inr (Returned r)" "Granted res2 = Granted res" "Access res2 = Access res"
          by blast
        from Cons.IH [OF this(1)] this(2,3) show ?thesis
          using True b hit by (simp add: deny_step_bits deny_later_nonzero)
      qed
    next
      case miss: False
      with Cons.prems True r
      have "\<exists>res2. deny_pass token options mapped (Suc i) aces res2 d =
                Inr (Returned r) \<and> Granted res2 = Granted res \<and> Access res2 = Access res"
        by (auto simp: Let_def)
      then obtain res2 where
        "deny_pass token options mapped (Suc i) aces res2 d = Inr (Returned r)"
        "Granted res2 = Granted res" "Access res2 = Access res"
        by blast
      from Cons.IH [OF this(1)] this(2,3) show ?thesis
        using True b miss by (auto simp: deny_skip_bits deny_later_nonzero)
    qed
  qed
qed

lemma allow_step_bits:
  fixes g :: u32
  shows "(g OR (m AND mapped AND NOT denied)) OR (mapped AND rest AND NOT denied) =
         g OR (mapped AND (m OR rest) AND NOT denied)"
  by (rule bit_word_eqI) (auto simp: bit_and_iff bit_or_iff bit_not_iff)

lemma allow_skip_bits:
  fixes g :: u32
  assumes "m AND mapped AND NOT denied = 0"
  shows "g OR (mapped AND (m OR rest) AND NOT denied) = g OR (mapped AND rest AND NOT denied)"
proof (rule bit_word_eqI)
  fix n
  assume n: "n < LENGTH(32)"
  have "\<not> bit (m AND mapped AND NOT denied) n" using assms by simp
  then show "bit (g OR (mapped AND (m OR rest) AND NOT denied)) n =
             bit (g OR (mapped AND rest AND NOT denied)) n"
    using n by (auto simp: bit_and_iff bit_or_iff bit_not_iff)
qed

lemma allow_break_bits:
  fixes g :: u32
  assumes "(g OR (m AND mapped AND NOT denied)) OR denied = mapped"
  shows "g OR (mapped AND (m OR rest) AND NOT denied) = g OR (m AND mapped AND NOT denied)"
proof (rule bit_word_eqI)
  fix n
  assume n: "n < LENGTH(32)"
  have "bit ((g OR (m AND mapped AND NOT denied)) OR denied) n = bit mapped n"
    using assms by simp
  then show "bit (g OR (mapped AND (m OR rest) AND NOT denied)) n =
             bit (g OR (m AND mapped AND NOT denied)) n"
    using n by (auto simp: bit_and_iff bit_or_iff bit_not_iff)
qed

lemma allow_pass_total:
  assumes "list_all (\<lambda>ace. applies_returns ace token options) aces"
  shows "\<exists>x. allow_pass token options mapped denied i aces res g = Inr x"
  using assms
proof (induction aces arbitrary: i res g)
  case Nil
  then show ?case by simp
next
  case (Cons ace aces)
  then obtain r where r: "aceAppliesToToken ace token options = Inr (ace_applies ace token options, r)"
    using applies_returns_Inr [of ace token options] by auto
  from Cons have "list_all (\<lambda>ace. applies_returns ace token options) aces" by simp
  note IH = Cons.IH [OF this]
  show ?case
    using r IH by (simp add: Let_def)
qed

lemma allow_pass_result:
  assumes "allow_pass token options mapped denied i aces res g = Inr (res', g')"
  shows "Granted res' = Granted res \<and> Access res' = Access res \<and> Reason res' = Reason res \<and>
         g' = g OR (mapped AND applicable_mask token options AceTypeAccessAllowed aces AND
                    NOT denied)"
  using assms
proof (induction aces arbitrary: i res g)
  case Nil
  then show ?case by simp
next
  case (Cons ace aces)
  show ?case
  proof (cases "Type (Header ace) = AceTypeAccessAllowed")
    case False
    with Cons show ?thesis by simp
  next
    case True
    from Cons.prems True obtain b rs where r: "aceAppliesToToken ace token options = Inr (b, rs)"
      by (cases "aceAppliesToToken ace token options") auto
    then have b: "ace_applies ace token options = b"
      by (simp add: ace_applies_def)
    let ?m = "MapGenericAccess (Raw (AccessMask ace)) (GenericMapping options)"
    show ?thesis
    proof (cases "b \<and> ?m AND mapped AND NOT denied \<noteq> 0")
      case hit: True
      show ?thesis
      proof (cases "(g OR (?m AND mapped AND NOT denied)) OR denied = mapped")
        case full: True
        with Cons.prems True r hit
        have "Granted res' = Granted res \<and> Access res' = Access res \<and> Reason res' = Reason res \<and>
              g' = g OR (?m AND mapped AND NOT denied)"
          by (auto simp: Let_def)
        then show ?thesis
          using True b hit allow_break_bits [OF full] by simp
      next
        case part: False
        with Cons.prems True r hit
        have "\<exists>res2. allow_pass token options mapped denied (Suc i) aces res2
                        (g OR (?m AND mapped AND NOT denied)) = Inr (res', g') \<and>
                Granted res2 = Granted res \<and> Access res2 = Access res \<and> Reason res2 = Reason res"
          by (auto simp: Let_def)
        then obtain res2 where
          "allow_pass token options mapped denied (Suc i) aces res2
             (g OR (?m AND mapped AND NOT denied)) = Inr (res', g')"
          "Granted res2 = Granted res" "Access res2 = Access res" "Reason res2 = Reason res"
          by blast
        from Cons.IH [OF this(1)] this(2,3,4) show ?thesis
          using True b hit by (simp add: allow_step_bits)
      qed
    next
      case miss: False
      with Cons.prems True r
      have "\<exists>res2. allow_pass token options mapped denied (Suc i) aces res2 g = Inr (res', g') \<and>
                Granted res2 = Granted res \<and> Access res2 = Access res \<and> Reason res2 = Reason res"
        by (auto simp: Let_def)
      then obtain res2 where
        "allow_pass token options mapped denied (Suc i) aces res2 g = Inr (res', g')"
        "Granted res2 = Granted res" "Access res2 = Access res" "Reason res2 = Reason res"
        by blast
      from Cons.IH [OF this(1)] this(2,3,4) show ?thesis
        using True b miss by (auto simp: allow_skip_bits)
    qed
  qed
qed

lemma final_bits:
  fixes mapped :: u32
  shows "0 OR (mapped AND a AND NOT (0 OR (mapped AND d))) = mapped AND a AND NOT d"
  by (rule bit_word_eqI) (auto simp: bit_and_iff bit_or_iff bit_not_iff)

lemma returned_bits:
  fixes mapped :: u32
  assumes "0 OR (mapped AND d) = mapped"
  shows "mapped AND a AND NOT d = 0"
proof (rule bit_word_eqI)
  fix n
  assume n: "n < LENGTH(32)"
  have "bit (0 OR (mapped AND d)) n = bit mapped n" using assms by simp
  then show "bit (mapped AND a AND NOT d) n = bit (0::u32) n"
    by (auto simp: bit_and_iff bit_or_iff bit_not_iff)
qed

lemma remaining_zero:
  fixes mapped :: u32
  shows "mapped AND NOT (mapped OR d) = 0"
  by (rule bit_word_eqI) (auto simp: bit_and_iff bit_or_iff bit_not_iff)

lemma and_nonzero_left:
  fixes mapped :: u32
  shows "mapped AND d \<noteq> 0 \<Longrightarrow> mapped \<noteq> 0"
  by auto

lemma final_decision_granted:
  "Granted (final_decision res mapped mapped d) \<and>
   Access (final_decision res mapped mapped d) = mapped \<and>
   Reason (final_decision res mapped mapped d) = ''Access granted by ACL''"
proof -
  have "mapped AND NOT (mapped OR d) = 0"
    by (rule remaining_zero)
  then show ?thesis
    unfolding final_decision_def Let_def by simp
qed

lemma final_decision_denied:
  "g \<noteq> mapped \<Longrightarrow>
   \<not> Granted (final_decision res mapped g d) \<and>
   Access (final_decision res mapped g d) = g \<and>
   Reason (final_decision res mapped g d) =
     (if d \<noteq> 0 then ''Some requested access was explicitly denied''
      else ''Some requested access was not granted by any ACE'')"
  unfolding final_decision_def Let_def by simp

lemma AccessCheck_integrity:
  assumes "integrity_denies (options_or_default options_ptr) (mapped_request desired options_ptr)"
  shows "\<exists>r. AccessCheck sd token desired options_ptr = Inr r \<and> \<not> Granted r \<and> Access r = 0 \<and>
           Ace r = None \<and> Reason r = ''Access denied by integrity level policy'' \<and>
           map Step (Details r) = [''IntegrityLevel'']"
  using assms
  by (simp add: AccessCheck_def integrity_denies_def mapped_request_def Let_def)

lemma AccessCheck_empty:
  assumes "\<not> integrity_denies (options_or_default options_ptr) (mapped_request desired options_ptr)"
      and "Aces (DACL sd) = []"
  shows "\<exists>r. AccessCheck sd token desired options_ptr = Inr r \<and> Granted r \<and>
           Access r = mapped_request desired options_ptr \<and> Ace r = None \<and>
           Reason r = ''No DACL present (full access)'' \<and>
           map Step (Details r) =
             (if CheckIntegrity (options_or_default options_ptr) then [''IntegrityLevel''] else []) @
             [''EmptyDACL'']"
  using assms
  by (auto simp: AccessCheck_def integrity_denies_def mapped_request_def Let_def)

lemma AccessCheck_owner:
  assumes "\<not> integrity_denies (options_or_default options_ptr) (mapped_request desired options_ptr)"
      and "Aces (DACL sd) \<noteq> []"
      and "SID_String (UserSID token) = Inr u" and "SID_String (Owner sd) = Inr u"
      and "mapped_request desired options_ptr AND
             NOT (AccessMaskReadControl OR AccessMaskWriteDACL) = 0"
  shows "\<exists>r. AccessCheck sd token desired options_ptr = Inr r \<and> Granted r \<and>
           Access r = mapped_request desired options_ptr AND
                        (AccessMaskReadControl OR AccessMaskWriteDACL) \<and>
           Ace r = None \<and> Reason r = ''Access granted to owner'' \<and>
           map Step (Details r) =
             (if CheckIntegrity (options_or_default options_ptr) then [''IntegrityLevel''] else []) @
             [''OwnerCheck'', ''OwnerRights'']"
  using assms
  by (auto simp: AccessCheck_def check_dacl_def integrity_denies_def mapped_request_def Let_def)

lemma AccessCheck_aces:
  assumes u: "SID_String (UserSID token) = Inr u" and o: "SID_String (Owner sd) = Inr ow"
      and ar: "list_all (\<lambda>ace. applies_returns ace token (options_or_default options_ptr))
                 (Aces (DACL sd))"
      and dec: "aces_decide sd token desired options_ptr"
  shows "\<exists>r. AccessCheck sd token desired options_ptr = Inr r \<and>
           Access r = mapped_request desired options_ptr AND
                        allowed_by_aces sd token options_ptr AND
                        NOT (denied_by_aces sd token options_ptr) \<and>
           Granted r = (Access r = mapped_request desired options_ptr) \<and>
           (Granted r \<longrightarrow> Reason r = ''Access granted by ACL'') \<and>
           (\<not> Granted r \<longrightarrow>
              (if mapped_request desired options_ptr AND denied_by_aces sd token options_ptr = 0
               then Reason r = ''Some requested access was not granted by any ACE''
               else Reason r = ''Some requested access was explicitly denied'' \<or>
                    (\<exists>j. Reason r = ''Access explicitly denied by ACE '' @ fmt_nat j)))"
proof -
  let ?opts = "options_or_default options_ptr"
  let ?mapped = "mapped_request desired options_ptr"
  let ?aces = "Aces (DACL sd)"
  let ?A = "allowed_by_aces sd token options_ptr"
  let ?D = "denied_by_aces sd token options_ptr"
  define r0 where "r0 = (if CheckIntegrity ?opts
       then add_detail \<lparr>Granted = False, Reason = [], Ace = None, Access = 0, Details = []\<rparr>
              ''IntegrityLevel''
              (''Checking if integrity level '' @ IntegrityLevel_String (SubjectIntegrity ?opts) @
               '' can access '' @ IntegrityLevel_String (ObjectIntegrity ?opts) @
               '' with policy '' @ fmt_nat (unat (IntegrityPolicy ?opts)))
              (CheckAccess (SubjectIntegrity ?opts) (ObjectIntegrity ?opts)
                 (IntegrityPolicy ?opts) ?mapped)
       else \<lparr>Granted = False, Reason = [], Ace = None, Access = 0, Details = []\<rparr>)"
  define r1 where "r1 = add_detail r0 ''OwnerCheck''
       (''Checking if user is owner: '' @ fmt_bool (u = ow)) (u = ow)"
  have r1: "\<not> Granted r1" "Access r1 = 0"
    by (simp_all add: r1_def r0_def)
  have nown: "\<not> (u = ow \<and> ?mapped AND NOT (AccessMaskReadControl OR AccessMaskWriteDACL) = 0)"
    using dec u o by (simp add: aces_decide_def owner_decides_def)
  have ac: "AccessCheck sd token desired options_ptr =
      (case deny_pass token ?opts ?mapped 0 ?aces r1 0 of
         Inl p \<Rightarrow> Inl p
       | Inr (Returned r) \<Rightarrow> Inr r
       | Inr (Continue (result2, deniedAccess)) \<Rightarrow>
           (case allow_pass token ?opts ?mapped deniedAccess 0 ?aces result2 0 of
              Inl p \<Rightarrow> Inl p
            | Inr (result3, grantedAccess) \<Rightarrow>
                Inr (final_decision result3 ?mapped grantedAccess deniedAccess)))"
    using dec u o nown
    unfolding mapped_request_def aces_decide_def integrity_denies_def r1_def r0_def
    by (auto simp: AccessCheck_def check_dacl_def Let_def)
  obtain x where x: "deny_pass token ?opts ?mapped 0 ?aces r1 0 = Inr x"
    using deny_pass_total [OF ar] by blast
  show ?thesis
  proof (cases x)
    case (Returned r)
    from deny_pass_Returned [OF x [unfolded Returned]]
    have f: "Granted r = Granted r1" "Access r = Access r1"
      "\<exists>j. Reason r = ''Access explicitly denied by ACE '' @ fmt_nat j"
      "0 OR (?mapped AND ?D) = ?mapped" "?mapped AND ?D \<noteq> 0"
      unfolding denied_by_aces_def by blast+
    have "AccessCheck sd token desired options_ptr = Inr r"
      using ac x Returned by simp
    moreover have "Access r = ?mapped AND ?A AND NOT ?D"
      using f(2) r1(2) returned_bits [OF f(4)] by simp
    moreover have "Access r \<noteq> ?mapped"
      using f(2) r1(2) f(5) by auto
    ultimately show ?thesis
      using f(1,3,5) r1(1) by auto
  next
    case (Continue c)
    obtain res2 d where c: "c = (res2, d)" by (cases c)
    from deny_pass_Continue [OF x [unfolded Continue c]]
    have f: "Granted res2 = Granted r1" "Access res2 = Access r1" "d = 0 OR (?mapped AND ?D)"
      unfolding denied_by_aces_def by blast+
    obtain y where y: "allow_pass token ?opts ?mapped d 0 ?aces res2 0 = Inr y"
      using allow_pass_total [OF ar] by blast
    obtain res3 g where yc: "y = (res3, g)" by (cases y)
    from allow_pass_result [OF y [unfolded yc]]
    have g: "g = 0 OR (?mapped AND ?A AND NOT d)"
      unfolding allowed_by_aces_def by blast
    have gv: "g = ?mapped AND ?A AND NOT ?D"
      unfolding g f(3) by (rule final_bits)
    have dz: "(d \<noteq> 0) = (?mapped AND ?D \<noteq> 0)"
      using f(3) by simp
    have acr: "AccessCheck sd token desired options_ptr =
        Inr (final_decision res3 ?mapped g d)"
      using ac x Continue c y yc by simp
    define fr where "fr = final_decision res3 ?mapped g d"
    have acr': "AccessCheck sd token desired options_ptr = Inr fr"
      using acr by (simp add: fr_def)
    have 1: "Access fr = ?mapped AND ?A AND NOT ?D"
      using final_decision_granted [of res3 ?mapped d] final_decision_denied [of g ?mapped res3 d] gv
      unfolding fr_def by (cases "g = ?mapped") auto
    have 2: "Granted fr = (Access fr = ?mapped)"
      using final_decision_granted [of res3 ?mapped d] final_decision_denied [of g ?mapped res3 d] gv
      unfolding fr_def by (cases "g = ?mapped") auto
    have 3: "Granted fr \<longrightarrow> Reason fr = ''Access granted by ACL''"
      using final_decision_granted [of res3 ?mapped d] final_decision_denied [of g ?mapped res3 d]
      unfolding fr_def by (cases "g = ?mapped") auto
    have 4: "\<not> Granted fr \<longrightarrow>
              (if ?mapped AND ?D = 0
               then Reason fr = ''Some requested access was not granted by any ACE''
               else Reason fr = ''Some requested access was explicitly denied'' \<or>
                    (\<exists>j. Reason fr = ''Access explicitly denied by ACE '' @ fmt_nat j))"
      using final_decision_granted [of res3 ?mapped d] final_decision_denied [of g ?mapped res3 d] dz
      unfolding fr_def by (cases "g = ?mapped") auto
    show ?thesis
      using acr' 1 2 3 4 by blast
  qed
qed

lemma CheckAccess_refuses_nonzero:
  "\<not> CheckAccess il objectLevel policy rights \<Longrightarrow> rights \<noteq> 0"
  by (auto simp: CheckAccess_def split: if_splits)

lemma subset_and:
  fixes mapped :: u32
  assumes "mapped AND NOT own = 0"
  shows "mapped AND own = mapped"
proof (rule bit_word_eqI)
  fix n
  assume n: "n < LENGTH(32)"
  have "\<not> bit (mapped AND NOT own) n" using assms by simp
  then show "bit (mapped AND own) n = bit mapped n"
    using n by (auto simp: bit_and_iff bit_not_iff)
qed

lemma renders_list_applies:
  "list_all ace_renders aces \<Longrightarrow> token_renders token \<Longrightarrow>
   list_all (\<lambda>ace. applies_returns ace token options) aces"
  by (induction aces) (auto simp: renders_applies_returns)


text \<open>
  Claim C3.  When the DACL holds no ACE and the integrity policy (evaluated first) does not
  refuse the request, \<open>AccessCheck\<close> grants the whole mapped request, for every token and
  every desired mask.  The trace holds no owner or ACE step, and the result does not depend
  on the token or the owner, not even on whether their SIDs render.
\<close>

theorem AccessCheck_empty_DACL:
  assumes "Aces (DACL sd) = []"
      and "\<not> integrity_denies (options_or_default options_ptr)
               (mapped_request desired options_ptr)"
  shows "\<exists>r. AccessCheck sd token desired options_ptr = Inr r \<and> Granted r \<and>
           Access r = mapped_request desired options_ptr \<and> Ace r = None \<and>
           Reason r = ''No DACL present (full access)'' \<and>
           map Step (Details r) =
             (if CheckIntegrity (options_or_default options_ptr) then [''IntegrityLevel''] else []) @
             [''EmptyDACL'']"
  using assms(2,1) by (rule AccessCheck_empty)


text \<open>
  Claim C2.  For a descriptor and a token whose SIDs render, \<open>AccessCheck\<close> returns a
  result that is granted exactly when its \<open>Access\<close> field, the accumulated granted bits,
  equals the whole mapped request.  When the ACEs decide, \<open>Access\<close> holds exactly the bits
  of the request carried by an applicable allow ACE and by no applicable deny ACE, also on a
  denial; and the reason of a denial tells whether an applicable deny ACE met the request or
  no ACE matched the missing bits.
\<close>

theorem AccessCheck_final_decision:
  assumes "descriptor_renders sd" and "token_renders token"
  shows "\<exists>r. AccessCheck sd token desired options_ptr = Inr r \<and>
           Granted r = (Access r = mapped_request desired options_ptr) \<and>
           (aces_decide sd token desired options_ptr \<longrightarrow>
              Access r = mapped_request desired options_ptr AND
                           allowed_by_aces sd token options_ptr AND
                           NOT (denied_by_aces sd token options_ptr) \<and>
              (Granted r \<longrightarrow> Reason r = ''Access granted by ACL'') \<and>
              (\<not> Granted r \<longrightarrow>
                 (if mapped_request desired options_ptr AND
                       denied_by_aces sd token options_ptr = 0
                  then Reason r = ''Some requested access was not granted by any ACE''
                  else Reason r = ''Some requested access was explicitly denied'' \<or>
                       (\<exists>j. Reason r = ''Access explicitly denied by ACE '' @ fmt_nat j))))"
proof -
  let ?opts = "options_or_default options_ptr"
  let ?mapped = "mapped_request desired options_ptr"
  obtain u where u: "SID_String (UserSID token) = Inr u"
    using assms(2) SID_renders_String by (auto simp: token_renders_def)
  obtain ow where ow: "SID_String (Owner sd) = Inr ow"
    using assms(1) SID_renders_String by (auto simp: descriptor_renders_def)
  have ar: "list_all (\<lambda>ace. applies_returns ace token ?opts) (Aces (DACL sd))"
    using assms renders_list_applies by (simp add: descriptor_renders_def)
  consider (integrity) "integrity_denies ?opts ?mapped"
    | (empty) "\<not> integrity_denies ?opts ?mapped" "Aces (DACL sd) = []"
    | (owner) "\<not> integrity_denies ?opts ?mapped" "Aces (DACL sd) \<noteq> []"
        "owner_decides sd token ?mapped"
    | (aces) "aces_decide sd token desired options_ptr"
    by (auto simp: aces_decide_def)
  then show ?thesis
  proof cases
    case integrity
    then have nz: "?mapped \<noteq> 0"
      using CheckAccess_refuses_nonzero by (auto simp: integrity_denies_def)
    from AccessCheck_integrity [OF integrity, of sd token]
    obtain r where "AccessCheck sd token desired options_ptr = Inr r" "\<not> Granted r" "Access r = 0"
      by blast
    then show ?thesis
      using nz integrity by (auto simp: aces_decide_def)
  next
    case empty
    from AccessCheck_empty [OF empty, of token]
    obtain r where "AccessCheck sd token desired options_ptr = Inr r" "Granted r"
      "Access r = ?mapped"
      by blast
    then show ?thesis
      using empty by (auto simp: aces_decide_def)
  next
    case owner
    then have eq: "u = ow"
      and sub: "?mapped AND NOT (AccessMaskReadControl OR AccessMaskWriteDACL) = 0"
      using u ow by (simp_all add: owner_decides_def)
    from AccessCheck_owner [OF owner(1,2) u ow [folded eq] sub]
    obtain r where "AccessCheck sd token desired options_ptr = Inr r" "Granted r"
      "Access r = ?mapped AND (AccessMaskReadControl OR AccessMaskWriteDACL)"
      by blast
    then show ?thesis
      using owner subset_and [OF sub] by (auto simp: aces_decide_def)
  next
    case aces
    from AccessCheck_aces [OF u ow ar aces] show ?thesis
      by blast
  qed
qed

section \<open>The access check on the descriptors of the tests\<close>

lemma str_user: "SID_String userSID = Inr ''S-1-5-21-1234567890-1234567890-1234567890-1001''"
  by (simp add: SID_String_def String_subs_ok userSID_def fmt_nat.simps digit_char_def)

lemma str_everyone: "SID_String everyoneSID = Inr ''S-1-1-0''"
  by (simp add: SID_String_def String_subs_ok everyoneSID_def fmt_nat.simps digit_char_def)

lemma str_admin: "SID_String adminSID = Inr ''S-1-5-32-544''"
  by (simp add: SID_String_def String_subs_ok adminSID_def fmt_nat.simps digit_char_def)

lemma default_mapping:
  "mapped_request AccessMaskGenericWrite None = 0xC0000"
  "mapped_request AccessMaskGenericRead None = 0x20000"
  "MapGenericAccess AccessMaskGenericWrite (GenericMapping (options_or_default None)) = 0xC0000"
  "MapGenericAccess AccessMaskGenericAll (GenericMapping (options_or_default None)) = 0xFFFFFFFF"
  by (simp_all add: mapped_request_def options_or_default_def DefaultAccessCheckOptions_def
        MapGenericAccess_def genericRights_def AccessMask_defs)

lemma default_no_integrity: "\<not> integrity_denies (options_or_default None) m"
  by (simp add: integrity_denies_def options_or_default_def DefaultAccessCheckOptions_def)

lemma everyone_applies:
  assumes "ObjectAce ace = Basic \<lparr>SecurityIdentifier = e\<rparr> \<or>
           (\<exists>oa. ObjectAce ace = Advanced oa \<and> adv_SecurityIdentifier oa = e)"
      and "SID_String e = Inr ''S-1-1-0''"
  shows "aceAppliesToToken ace token options = Inr (True, ''Everyone SID matches all tokens'')"
  using assms by (auto simp: aceAppliesToToken_def sid_applies_def)

lemma user_applies:
  assumes "ObjectAce ace = Basic \<lparr>SecurityIdentifier = UserSID token\<rparr>"
      and "SID_String (UserSID token) = Inr u"
  shows "\<exists>x. aceAppliesToToken ace token options = Inr (True, x)"
  using assms by (auto simp: aceAppliesToToken_def sid_applies_def)

text \<open>
  Claim C1.  Let a DACL hold, in either order, an access-denied ACE that denies
  GENERIC_WRITE to Everyone and an access-allowed ACE that grants GENERIC_ALL to a principal.
  With the default options, a token whose user is that principal is refused GENERIC_WRITE and
  granted GENERIC_READ; the decision and the granted bits are the same for both orders.
\<close>

theorem AccessCheck_deny_precedence:
  assumes a: "Type (Header a) = AceTypeAccessAllowed"
             "ObjectAce a = Basic \<lparr>SecurityIdentifier = UserSID token\<rparr>"
             "Raw (AccessMask a) = AccessMaskGenericAll"
      and d: "Type (Header d) = AceTypeAccessDenied"
             "ObjectAce d = Basic \<lparr>SecurityIdentifier = e\<rparr>"
             "Raw (AccessMask d) = AccessMaskGenericWrite"
      and e: "SID_String e = Inr ''S-1-1-0''"
      and u: "SID_String (UserSID token) = Inr u"
      and ow: "SID_String (Owner sd) = Inr ow"
      and aces: "Aces (DACL sd) = [d, a] \<or> Aces (DACL sd) = [a, d]"
  shows "(\<exists>r. AccessCheck sd token AccessMaskGenericWrite None = Inr r \<and>
              \<not> Granted r \<and> Access r = 0) \<and>
         (\<exists>r. AccessCheck sd token AccessMaskGenericRead None = Inr r \<and>
              Granted r \<and> Access r = AccessMaskReadControl)"
proof -
  let ?opts = "options_or_default None"
  have ad: "aceAppliesToToken d token ?opts = Inr (True, ''Everyone SID matches all tokens'')"
    using d(2) e everyone_applies by blast
  obtain x where aa: "aceAppliesToToken a token ?opts = Inr (True, x)"
    using user_applies [OF a(2) u] by blast
  have ap: "ace_applies d token ?opts" "ace_applies a token ?opts"
    using ad aa by (simp_all add: ace_applies_def)
  have ar: "list_all (\<lambda>ace. applies_returns ace token ?opts) (Aces (DACL sd))"
    using aces ad aa by (auto simp: applies_returns_def)
  have ne: "Aces (DACL sd) \<noteq> []"
    using aces by auto
  have A: "allowed_by_aces sd token None = 0xFFFFFFFF"
    using aces a d ap by (auto simp: allowed_by_aces_def default_mapping AceType_defs)
  have D: "denied_by_aces sd token None = 0xC0000"
    using aces a d ap by (auto simp: denied_by_aces_def default_mapping AceType_defs)
  have "\<exists>r. AccessCheck sd token AccessMaskGenericWrite None = Inr r \<and>
              \<not> Granted r \<and> Access r = 0"
  proof -
    have dec: "aces_decide sd token AccessMaskGenericWrite None"
      unfolding aces_decide_def owner_decides_def default_mapping
      using ne by (simp add: default_no_integrity AccessMask_defs)
    from AccessCheck_aces [OF u ow ar dec]
    obtain r where r: "AccessCheck sd token AccessMaskGenericWrite None = Inr r"
      "Access r = mapped_request AccessMaskGenericWrite None AND
                   allowed_by_aces sd token None AND NOT (denied_by_aces sd token None)"
      "Granted r = (Access r = mapped_request AccessMaskGenericWrite None)"
      by blast
    have "Access r = 0"
      unfolding r(2) A D default_mapping by simp
    moreover from this have "\<not> Granted r"
      unfolding r(3) default_mapping by simp
    ultimately show ?thesis
      using r(1) by blast
  qed
  moreover have "\<exists>r. AccessCheck sd token AccessMaskGenericRead None = Inr r \<and>
              Granted r \<and> Access r = AccessMaskReadControl"
  proof (cases "owner_decides sd token (mapped_request AccessMaskGenericRead None)")
    case True
    then have eq: "u = ow"
      using u ow by (simp add: owner_decides_def)
    have sub: "mapped_request AccessMaskGenericRead None AND
                 NOT (AccessMaskReadControl OR AccessMaskWriteDACL) = 0"
      unfolding default_mapping by (simp add: AccessMask_defs)
    from AccessCheck_owner [OF default_no_integrity ne u ow [folded eq] sub]
    obtain r where r: "AccessCheck sd token AccessMaskGenericRead None = Inr r" "Granted r"
      "Access r = mapped_request AccessMaskGenericRead None AND
                   (AccessMaskReadControl OR AccessMaskWriteDACL)"
      by blast
    have "Access r = AccessMaskReadControl"
      unfolding r(3) default_mapping by (simp add: AccessMask_defs)
    then show ?thesis
      using r(1,2) by blast
  next
    case False
    then have dec: "aces_decide sd token AccessMaskGenericRead None"
      using ne by (simp add: aces_decide_def default_no_integrity)
    from AccessCheck_aces [OF u ow ar dec]
    obtain r where r: "AccessCheck sd token AccessMaskGenericRead None = Inr r"
      "Access r = mapped_request AccessMaskGenericRead None AND
                   allowed_by_aces sd token None AND NOT (denied_by_aces sd token None)"
      "Granted r = (Access r = mapped_request AccessMaskGenericRead None)"
      by blast
    have v: "Access r = 0x20000"
      unfolding r(2) A D default_mapping by simp
    then have "Granted r"
      unfolding r(3) default_mapping by simp
    moreover have "Access r = AccessMaskReadControl"
      using v by (simp add: AccessMask_defs)
    ultimately show ?thesis
      using r(1) by blast
  qed
  ultimately show ?thesis
    by blast
qed

theorem AccessCheck_deny_precedence_witness:
  "((\<exists>r. AccessCheck
            (test_descriptor [NewAccessDeniedACE everyoneSID AccessMaskGenericWrite,
                              NewAccessAllowedACE userSID AccessMaskGenericAll])
            (NewTokenUser userSID [everyoneSID]) AccessMaskGenericWrite None = Inr r \<and>
          \<not> Granted r \<and> Access r = 0) \<and>
    (\<exists>r. AccessCheck
            (test_descriptor [NewAccessDeniedACE everyoneSID AccessMaskGenericWrite,
                              NewAccessAllowedACE userSID AccessMaskGenericAll])
            (NewTokenUser userSID [everyoneSID]) AccessMaskGenericRead None = Inr r \<and>
          Granted r \<and> Access r = AccessMaskReadControl)) \<and>
   ((\<exists>r. AccessCheck
            (test_descriptor [NewAccessAllowedACE userSID AccessMaskGenericAll,
                              NewAccessDeniedACE everyoneSID AccessMaskGenericWrite])
            (NewTokenUser userSID [everyoneSID]) AccessMaskGenericWrite None = Inr r \<and>
          \<not> Granted r \<and> Access r = 0) \<and>
    (\<exists>r. AccessCheck
            (test_descriptor [NewAccessAllowedACE userSID AccessMaskGenericAll,
                              NewAccessDeniedACE everyoneSID AccessMaskGenericWrite])
            (NewTokenUser userSID [everyoneSID]) AccessMaskGenericRead None = Inr r \<and>
          Granted r \<and> Access r = AccessMaskReadControl))"
proof (rule conjI)
  show "(\<exists>r. AccessCheck
            (test_descriptor [NewAccessDeniedACE everyoneSID AccessMaskGenericWrite,
                              NewAccessAllowedACE userSID AccessMaskGenericAll])
            (NewTokenUser userSID [everyoneSID]) AccessMaskGenericWrite None = Inr r \<and>
          \<not> Granted r \<and> Access r = 0) \<and>
    (\<exists>r. AccessCheck
            (test_descriptor [NewAccessDeniedACE everyoneSID AccessMaskGenericWrite,
                              NewAccessAllowedACE userSID AccessMaskGenericAll])
            (NewTokenUser userSID [everyoneSID]) AccessMaskGenericRead None = Inr r \<and>
          Granted r \<and> Access r = AccessMaskReadControl)"
    by (rule AccessCheck_deny_precedence
          [where a = "NewAccessAllowedACE userSID AccessMaskGenericAll"
             and d = "NewAccessDeniedACE everyoneSID AccessMaskGenericWrite"
             and e = everyoneSID
             and u = "''S-1-5-21-1234567890-1234567890-1234567890-1001''"
             and ow = "''S-1-5-32-544''"])
       (simp_all add: NewAccessAllowedACE_def NewAccessDeniedACE_def NewTokenUser_def Raw_def
          test_descriptor_def str_user str_everyone str_admin)
  show "(\<exists>r. AccessCheck
            (test_descriptor [NewAccessAllowedACE userSID AccessMaskGenericAll,
                              NewAccessDeniedACE everyoneSID AccessMaskGenericWrite])
            (NewTokenUser userSID [everyoneSID]) AccessMaskGenericWrite None = Inr r \<and>
          \<not> Granted r \<and> Access r = 0) \<and>
    (\<exists>r. AccessCheck
            (test_descriptor [NewAccessAllowedACE userSID AccessMaskGenericAll,
                              NewAccessDeniedACE everyoneSID AccessMaskGenericWrite])
            (NewTokenUser userSID [everyoneSID]) AccessMaskGenericRead None = Inr r \<and>
          Granted r \<and> Access r = AccessMaskReadControl)"
    by (rule AccessCheck_deny_precedence
          [where a = "NewAccessAllowedACE userSID AccessMaskGenericAll"
             and d = "NewAccessDeniedACE everyoneSID AccessMaskGenericWrite"
             and e = everyoneSID
             and u = "''S-1-5-21-1234567890-1234567890-1234567890-1001''"
             and ow = "''S-1-5-32-544''"])
       (simp_all add: NewAccessAllowedACE_def NewAccessDeniedACE_def NewTokenUser_def Raw_def
          test_descriptor_def str_user str_everyone str_admin)
qed

theorem AccessCheck_empty_DACL_witness:
  "Aces (DACL (test_descriptor [])) = [] \<and>
   \<not> integrity_denies (options_or_default None) (mapped_request AccessMaskGenericRead None) \<and>
   (\<exists>r. AccessCheck (test_descriptor [])
           (NewTokenUser \<lparr>Revision = 1, NumAuthorities = 3, Authority = [0, 0, 0, 0, 0, 5],
                          SubAuthorities = []\<rparr> [])
           AccessMaskGenericRead None = Inr r \<and>
         Granted r \<and> Access r = AccessMaskReadControl \<and>
         map Step (Details r) = [''EmptyDACL''])"
proof -
  have e: "Aces (DACL (test_descriptor [])) = []"
    by (simp add: test_descriptor_def)
  have m: "mapped_request AccessMaskGenericRead None = AccessMaskReadControl"
    unfolding default_mapping by (simp add: AccessMask_defs)
  have c: "\<not> CheckIntegrity (options_or_default None)"
    by (simp add: options_or_default_def DefaultAccessCheckOptions_def)
  show ?thesis
    using AccessCheck_empty_DACL [OF e default_no_integrity,
        where desired = AccessMaskGenericRead
          and token = "NewTokenUser \<lparr>Revision = 1, NumAuthorities = 3,
                                     Authority = [0, 0, 0, 0, 0, 5], SubAuthorities = []\<rparr> []"]
      e default_no_integrity m c
    by auto
qed


theorem AccessCheck_final_decision_witness:
  "descriptor_renders
     (test_descriptor [NewAccessAllowedACE everyoneSID
                         (AccessMaskGenericRead OR AccessMaskReadControl)]) \<and>
   token_renders (NewTokenUser userSID [everyoneSID]) \<and>
   aces_decide
     (test_descriptor [NewAccessAllowedACE everyoneSID
                         (AccessMaskGenericRead OR AccessMaskReadControl)])
     (NewTokenUser userSID [everyoneSID])
     (AccessMaskGenericRead OR AccessMaskGenericWrite) (Some partial_access_options) \<and>
   (\<exists>r. AccessCheck
           (test_descriptor [NewAccessAllowedACE everyoneSID
                               (AccessMaskGenericRead OR AccessMaskReadControl)])
           (NewTokenUser userSID [everyoneSID])
           (AccessMaskGenericRead OR AccessMaskGenericWrite) (Some partial_access_options) =
           Inr r \<and>
         \<not> Granted r \<and> Access r = AccessMaskReadControl \<and>
         Access r AND AccessMaskWriteDACL = 0 \<and>
         Reason r = ''Some requested access was not granted by any ACE'')"
proof -
  let ?allow = "NewAccessAllowedACE everyoneSID (AccessMaskGenericRead OR AccessMaskReadControl)"
  let ?sd = "test_descriptor [?allow]"
  let ?tok = "NewTokenUser userSID [everyoneSID]"
  let ?req = "AccessMaskGenericRead OR AccessMaskGenericWrite"
  let ?op = "Some partial_access_options"
  have dr: "descriptor_renders ?sd"
    by (simp add: descriptor_renders_def test_descriptor_def SID_renders_def str_admin
          ace_renders_def NewAccessAllowedACE_def str_everyone)
  have tr: "token_renders ?tok"
    by (simp add: token_renders_def NewTokenUser_def SID_renders_def str_user str_everyone)
  have m: "mapped_request ?req ?op = 0x60000"
    by (simp add: mapped_request_def options_or_default_def partial_access_options_def
          MapGenericAccess_def genericRights_def AccessMask_defs)
  have ma: "MapGenericAccess (AccessMaskGenericRead OR AccessMaskReadControl)
              (GenericMapping (options_or_default ?op)) = 0x20000"
    by (simp add: options_or_default_def partial_access_options_def
          MapGenericAccess_def genericRights_def AccessMask_defs)
  have ap: "ace_applies ?allow ?tok (options_or_default ?op)"
    using everyone_applies [of ?allow everyoneSID ?tok "options_or_default ?op"] str_everyone
    by (simp add: ace_applies_def NewAccessAllowedACE_def)
  have A: "allowed_by_aces ?sd ?tok ?op = 0x20000"
    using ap by (simp add: allowed_by_aces_def test_descriptor_def ma Raw_def
          NewAccessAllowedACE_def)
  have D: "denied_by_aces ?sd ?tok ?op = 0"
    by (simp add: denied_by_aces_def test_descriptor_def NewAccessAllowedACE_def AceType_defs)
  have dec: "aces_decide ?sd ?tok ?req ?op"
    by (simp add: aces_decide_def integrity_denies_def options_or_default_def
          partial_access_options_def test_descriptor_def owner_decides_def NewTokenUser_def
          str_user str_admin)
  from AccessCheck_final_decision [OF dr tr, of ?req ?op] dec
  obtain r where r: "AccessCheck ?sd ?tok ?req ?op = Inr r"
    "Granted r = (Access r = mapped_request ?req ?op)"
    "Access r = mapped_request ?req ?op AND allowed_by_aces ?sd ?tok ?op AND
                 NOT (denied_by_aces ?sd ?tok ?op)"
    "\<not> Granted r \<longrightarrow>
       (if mapped_request ?req ?op AND denied_by_aces ?sd ?tok ?op = 0
        then Reason r = ''Some requested access was not granted by any ACE''
        else Reason r = ''Some requested access was explicitly denied'' \<or>
             (\<exists>j. Reason r = ''Access explicitly denied by ACE '' @ fmt_nat j))"
    by blast
  have v: "Access r = 0x20000"
    unfolding r(3) m A D by simp
  have g: "\<not> Granted r"
    unfolding r(2) v m by simp
  have re: "Reason r = ''Some requested access was not granted by any ACE''"
    using r(4) g unfolding m D by simp
  have "Access r = AccessMaskReadControl" "Access r AND AccessMaskWriteDACL = 0"
    using v by (simp_all add: AccessMask_defs)
  then show ?thesis
    using dr tr dec r(1) g re by blast
qed

text \<open>
  Claim C7 does not hold of the code: both loops of \<open>AccessCheck\<close> test the header type for
  equality with the basic access-denied and access-allowed tags, so an object or callback ACE
  never reaches \<open>aceAppliesToToken\<close>, whose branch for the object body is thereby dead on
  any decoded descriptor.  An access-denied-object ACE for Everyone that covers the whole
  request does not refuse it, although the same ACE with the basic tag does.
\<close>

theorem AccessCheck_skips_object_deny:
  "(\<exists>r. AccessCheck
           (test_descriptor
              [\<lparr>Header = \<lparr>Type = AceTypeAccessDeniedObject, Flags = 0, Size = 0\<rparr>,
                AccessMask = \<lparr>Value = AccessMaskGenericWrite\<rparr>,
                ObjectAce = Advanced (zero_AdvancedAce\<lparr>adv_SecurityIdentifier := everyoneSID\<rparr>)\<rparr>,
               NewAccessAllowedACE everyoneSID AccessMaskGenericAll])
           (NewTokenUser userSID [everyoneSID]) AccessMaskGenericWrite None = Inr r \<and>
         Granted r \<and> Reason r = ''Access granted by ACL'') \<and>
   (\<exists>r. AccessCheck
           (test_descriptor
              [\<lparr>Header = \<lparr>Type = AceTypeAccessDenied, Flags = 0, Size = 0\<rparr>,
                AccessMask = \<lparr>Value = AccessMaskGenericWrite\<rparr>,
                ObjectAce = Advanced (zero_AdvancedAce\<lparr>adv_SecurityIdentifier := everyoneSID\<rparr>)\<rparr>,
               NewAccessAllowedACE everyoneSID AccessMaskGenericAll])
           (NewTokenUser userSID [everyoneSID]) AccessMaskGenericWrite None = Inr r \<and>
         \<not> Granted r)"
proof -
  let ?allow = "NewAccessAllowedACE everyoneSID AccessMaskGenericAll"
  let ?body = "Advanced (zero_AdvancedAce\<lparr>adv_SecurityIdentifier := everyoneSID\<rparr>)"
  let ?obj = "\<lparr>Header = \<lparr>Type = AceTypeAccessDeniedObject, Flags = 0, Size = 0\<rparr>,
                AccessMask = \<lparr>Value = AccessMaskGenericWrite\<rparr>, ObjectAce = ?body\<rparr>"
  let ?bas = "\<lparr>Header = \<lparr>Type = AceTypeAccessDenied, Flags = 0, Size = 0\<rparr>,
                AccessMask = \<lparr>Value = AccessMaskGenericWrite\<rparr>, ObjectAce = ?body\<rparr>"
  let ?tok = "NewTokenUser userSID [everyoneSID]"
  let ?opts = "options_or_default None"
  have u: "SID_String (UserSID ?tok) = Inr ''S-1-5-21-1234567890-1234567890-1234567890-1001''"
    by (simp add: NewTokenUser_def str_user)
  have o: "\<And>aces. SID_String (Owner (test_descriptor aces)) = Inr ''S-1-5-32-544''"
    by (simp add: test_descriptor_def str_admin)
  have ea: "aceAppliesToToken ?allow ?tok ?opts = Inr (True, ''Everyone SID matches all tokens'')"
    using everyone_applies [of ?allow everyoneSID ?tok ?opts] str_everyone
    by (simp add: NewAccessAllowedACE_def)
  have eo: "aceAppliesToToken ?obj ?tok ?opts = Inr (True, ''Everyone SID matches all tokens'')"
    using everyone_applies [of ?obj everyoneSID ?tok ?opts] str_everyone by simp
  have eb: "aceAppliesToToken ?bas ?tok ?opts = Inr (True, ''Everyone SID matches all tokens'')"
    using everyone_applies [of ?bas everyoneSID ?tok ?opts] str_everyone by simp
  have ty: "Type (Header ?allow) = AceTypeAccessAllowed" "Raw (AccessMask ?allow) = AccessMaskGenericAll"
    by (simp_all add: NewAccessAllowedACE_def Raw_def)
  have dec: "\<And>aces. aces \<noteq> [] \<Longrightarrow>
      aces_decide (test_descriptor aces) ?tok AccessMaskGenericWrite None"
    unfolding aces_decide_def owner_decides_def default_mapping
    by (simp add: default_no_integrity test_descriptor_def NewTokenUser_def str_user str_admin)
  have "\<exists>r. AccessCheck (test_descriptor [?obj, ?allow]) ?tok AccessMaskGenericWrite None = Inr r \<and>
         Granted r \<and> Reason r = ''Access granted by ACL''"
  proof -
    have ar: "list_all (\<lambda>ace. applies_returns ace ?tok ?opts)
                (Aces (DACL (test_descriptor [?obj, ?allow])))"
      using ea eo by (simp add: test_descriptor_def applies_returns_def)
    have A: "allowed_by_aces (test_descriptor [?obj, ?allow]) ?tok None = 0xFFFFFFFF"
      using ea ty by (simp add: allowed_by_aces_def test_descriptor_def ace_applies_def
            default_mapping AceType_defs)
    have D: "denied_by_aces (test_descriptor [?obj, ?allow]) ?tok None = 0"
      using ty by (simp add: denied_by_aces_def test_descriptor_def AceType_defs)
    from AccessCheck_aces [OF u o ar dec]
    obtain r where r: "AccessCheck (test_descriptor [?obj, ?allow]) ?tok AccessMaskGenericWrite None =
         Inr r"
      "Access r = mapped_request AccessMaskGenericWrite None AND
                   allowed_by_aces (test_descriptor [?obj, ?allow]) ?tok None AND
                   NOT (denied_by_aces (test_descriptor [?obj, ?allow]) ?tok None)"
      "Granted r = (Access r = mapped_request AccessMaskGenericWrite None)"
      "Granted r \<longrightarrow> Reason r = ''Access granted by ACL''"
      by blast
    have "Access r = 0xC0000"
      unfolding r(2) A D default_mapping by simp
    then have "Granted r"
      unfolding r(3) default_mapping by simp
    then show ?thesis
      using r(1,4) by blast
  qed
  moreover
  have "\<exists>r. AccessCheck (test_descriptor [?bas, ?allow]) ?tok AccessMaskGenericWrite None = Inr r \<and>
         \<not> Granted r"
  proof -
    have ar: "list_all (\<lambda>ace. applies_returns ace ?tok ?opts)
                (Aces (DACL (test_descriptor [?bas, ?allow])))"
      using ea eb by (simp add: test_descriptor_def applies_returns_def)
    have A: "allowed_by_aces (test_descriptor [?bas, ?allow]) ?tok None = 0xFFFFFFFF"
      using ea ty by (simp add: allowed_by_aces_def test_descriptor_def ace_applies_def
            default_mapping AceType_defs)
    have D: "denied_by_aces (test_descriptor [?bas, ?allow]) ?tok None = 0xC0000"
      using eb ty by (simp add: denied_by_aces_def test_descriptor_def ace_applies_def
            default_mapping AceType_defs Raw_def)
    from AccessCheck_aces [OF u o ar dec]
    obtain r where r: "AccessCheck (test_descriptor [?bas, ?allow]) ?tok AccessMaskGenericWrite None =
         Inr r"
      "Access r = mapped_request AccessMaskGenericWrite None AND
                   allowed_by_aces (test_descriptor [?bas, ?allow]) ?tok None AND
                   NOT (denied_by_aces (test_descriptor [?bas, ?allow]) ?tok None)"
      "Granted r = (Access r = mapped_request AccessMaskGenericWrite None)"
      by blast
    have "Access r = 0"
      unfolding r(2) A D default_mapping by simp
    then have "\<not> Granted r"
      unfolding r(3) default_mapping by simp
    then show ?thesis
      using r(1) by blast
  qed
  ultimately show ?thesis
    by blast
qed

end
